theory Spec2Isabelle
  imports Complex_Main "HOL-Library.AList"
begin

section \<open>The expiring token store of src/index.ts\<close>

text \<open>
  The store is the class \<open>MemoryTokenStore\<close>: a \<open>Map\<close> from keys to records, a
  \<open>Map\<close> from keys to Node timer handles, and the merged options. Times are the integer
  milliseconds \<open>Date.now()\<close> returns and lifetimes are whole seconds, both as
  \<open>int\<close> (JavaScript numbers are exact on integers below \<open>2^53\<close>). Every call
  of \<open>Date.now()\<close> in the source is a parameter of the model, so a method that reads
  the clock twice takes two readings. A JavaScript \<open>Map\<close> keeps insertion order
  (an overwritten key keeps its place), so each \<open>Map\<close> is an association list
  with \<open>AList.update\<close> for \<open>Map.set\<close>, \<open>AList.delete\<close> for
  \<open>Map.delete\<close> and \<open>map_of\<close> for \<open>Map.get\<close>. A method runs to its end
  before the next call or timer callback starts: every change of the state is made
  before the method's first \<open>await\<close> hands control back, except in the loop of
  \<open>keys\<close>, which is taken as one step too. The \<open>console.log\<close> lines under
  \<open>options.debug\<close> write to the console only and change no state; they are left out.
\<close>

subsection \<open>Data\<close>

text \<open>\<open>TokenStoreOptions\<close>: every field is optional in the source.\<close>

record TokenStoreOptions =
  maxSize_opt :: "int option"
  defaultTtl_opt :: "int option"
  debug_opt :: "bool option"

text \<open>\<open>Required<TokenStoreOptions>\<close>, the type of \<open>this.options\<close>.\<close>

record RequiredOptions =
  maxSize :: int
  defaultTtl :: int
  debug :: bool

record TokenRecord =
  token :: string
  expiresAt :: int
  createdAt :: int

record TokenStats =
  size_stat :: nat
  pendingCleanups :: nat
  memoryUsage :: nat

text \<open>
  A pending \<open>NodeJS.Timeout\<close>: the identity of the handle, the key its callback
  closes over, the delay given to \<open>setTimeout\<close> and the clock reading
  \<open>scheduleExpiry\<close> took just before it called \<open>setTimeout\<close>.
\<close>

record Timeout =
  tid :: nat
  tkey :: string
  delay :: int
  started :: int

text \<open>
  The state: the three fields of the class, and Node's timer queue (the timeouts that are
  set and neither fired nor cleared, and the next fresh handle).
\<close>

record state =
  map_tok :: "(string \<times> TokenRecord) list"
  timers :: "(string \<times> nat) list"
  options :: RequiredOptions
  pending :: "Timeout list"
  next_id :: nat

datatype error = SizeLimitExceeded int

subsection \<open>Constants and the constructor\<close>

definition MAX_SAFE_INTEGER :: int where
  "MAX_SAFE_INTEGER = 9007199254740991"

definition MAX_TIMEOUT_MS :: int where
  "MAX_TIMEOUT_MS = 2147483647"

text \<open>\<open>a || b\<close> on numbers: \<open>undefined\<close> and \<open>0\<close> are falsy.\<close>

definition or_number :: "int option \<Rightarrow> int \<Rightarrow> int" where
  "or_number a b = (case a of None \<Rightarrow> b | Some n \<Rightarrow> if n = 0 then b else n)"

definition or_bool :: "bool option \<Rightarrow> bool \<Rightarrow> bool" where
  "or_bool a b = (case a of None \<Rightarrow> b | Some x \<Rightarrow> if x then x else b)"

definition new_MemoryTokenStore :: "TokenStoreOptions \<Rightarrow> state" where
  "new_MemoryTokenStore opts =
     \<lparr>map_tok = [], timers = [],
      options = \<lparr>maxSize = or_number (maxSize_opt opts) MAX_SAFE_INTEGER,
                 defaultTtl = or_number (defaultTtl_opt opts) 3600,
                 debug = or_bool (debug_opt opts) False\<rparr>,
      pending = [], next_id = 0\<rparr>"

subsection \<open>Node's timers\<close>

definition clearTimeout :: "nat \<Rightarrow> state \<Rightarrow> state" where
  "clearTimeout h s = s\<lparr>pending := filter (\<lambda>t. tid t \<noteq> h) (pending s)\<rparr>"

definition setTimeout :: "string \<Rightarrow> int \<Rightarrow> int \<Rightarrow> state \<Rightarrow> nat \<times> state" where
  "setTimeout key d now s =
     (next_id s,
      s\<lparr>pending := \<lparr>tid = next_id s, tkey = key, delay = d, started = now\<rparr> # pending s,
        next_id := Suc (next_id s)\<rparr>)"

subsection \<open>Segmented expiry scheduling\<close>

text \<open>
  \<open>scheduleExpiry(key, expiresAt)\<close>; \<open>now\<close> is its reading of the clock.
  \<open>t.unref()\<close> changes nothing the store can observe.
\<close>

definition scheduleExpiry :: "string \<Rightarrow> int \<Rightarrow> int \<Rightarrow> state \<Rightarrow> state" where
  "scheduleExpiry key expAt now s =
     (let s1 = (case map_of (timers s) key of
                  None \<Rightarrow> s
                | Some existing \<Rightarrow> clearTimeout existing s);
          remaining = expAt - now
      in if remaining \<le> 0
         then s1\<lparr>map_tok := AList.delete key (map_tok s1),
                timers := AList.delete key (timers s1)\<rparr>
         else (let d = min remaining MAX_TIMEOUT_MS;
                   (t, s2) = setTimeout key d now s1
               in s2\<lparr>timers := AList.update key t (timers s2)\<rparr>))"

text \<open>
  The callback given to \<open>setTimeout\<close>: \<open>now2\<close> is its own reading of the clock,
  \<open>now3\<close> the reading of the \<open>scheduleExpiry\<close> it may call.
\<close>

definition expiry_callback :: "string \<Rightarrow> int \<Rightarrow> int \<Rightarrow> state \<Rightarrow> state" where
  "expiry_callback key now2 now3 s =
     (case map_of (map_tok s) key of
        None \<Rightarrow> s\<lparr>timers := AList.delete key (timers s)\<rparr>
      | Some rec \<Rightarrow>
          if expiresAt rec \<le> now2
          then s\<lparr>map_tok := AList.delete key (map_tok s),
                 timers := AList.delete key (timers s)\<rparr>
          else scheduleExpiry key (expiresAt rec) now3 s)"

text \<open>
  Node fires the pending timeout with handle \<open>h\<close>: it leaves the queue and its
  callback runs. A handle that is not pending (cleared, or fired before) cannot fire.
\<close>

definition fire :: "nat \<Rightarrow> int \<Rightarrow> int \<Rightarrow> state \<Rightarrow> state" where
  "fire h now2 now3 s =
     (case find (\<lambda>t. tid t = h) (pending s) of
        None \<Rightarrow> s
      | Some t \<Rightarrow> expiry_callback (tkey t) now2 now3 (clearTimeout h s))"

subsection \<open>The public methods\<close>

definition delete_token :: "string \<Rightarrow> state \<Rightarrow> bool \<times> state" where
  "delete_token key s =
     (let existed = (map_of (map_tok s) key \<noteq> None);
          s1 = s\<lparr>map_tok := AList.delete key (map_tok s)\<rparr>;
          s2 = (case map_of (timers s1) key of
                  None \<Rightarrow> s1
                | Some timer \<Rightarrow>
                    (clearTimeout timer s1)\<lparr>timers := AList.delete key (timers s1)\<rparr>)
      in (existed, s2))"

text \<open>
  \<open>set(key, token, ttlSeconds?)\<close>: \<open>now\<close> is the reading of \<open>set\<close>,
  \<open>now'\<close> the reading of \<open>scheduleExpiry\<close>. The \<open>throw\<close> comes before any
  change of the state, so the error is returned with the state as it was.
\<close>

definition set_token ::
  "string \<Rightarrow> string \<Rightarrow> int option \<Rightarrow> int \<Rightarrow> int \<Rightarrow> state \<Rightarrow> (error + unit) \<times> state" where
  "set_token key tok ttlSeconds now now' s =
     (let ttl = (case ttlSeconds of None \<Rightarrow> defaultTtl (options s) | Some t \<Rightarrow> t);
          expAt = now + ttl * 1000
      in if map_of (map_tok s) key = None \<and> maxSize (options s) \<le> int (length (map_tok s))
         then (Inl (SizeLimitExceeded (maxSize (options s))), s)
         else (Inr (),
               scheduleExpiry key expAt now'
                 (s\<lparr>map_tok :=
                      AList.update key \<lparr>token = tok, expiresAt = expAt, createdAt = now\<rparr>
                        (map_tok s)\<rparr>)))"

definition get :: "string \<Rightarrow> int \<Rightarrow> state \<Rightarrow> string option \<times> state" where
  "get key now s =
     (case map_of (map_tok s) key of
        None \<Rightarrow> (None, s)
      | Some record \<Rightarrow>
          if expiresAt record \<le> now then (None, snd (delete_token key s))
          else (Some (token record), s))"

definition has :: "string \<Rightarrow> int \<Rightarrow> state \<Rightarrow> bool \<times> state" where
  "has key now s =
     (case map_of (map_tok s) key of
        None \<Rightarrow> (False, s)
      | Some record \<Rightarrow>
          if expiresAt record \<le> now then (False, snd (delete_token key s))
          else (True, s))"

text \<open>The metadata object is the pair \<open>(expiresAt, createdAt)\<close>.\<close>

definition getMetadata :: "string \<Rightarrow> int \<Rightarrow> state \<Rightarrow> (int \<times> int) option \<times> state" where
  "getMetadata key now s =
     (case map_of (map_tok s) key of
        None \<Rightarrow> (None, s)
      | Some record \<Rightarrow>
          if expiresAt record \<le> now then (None, snd (delete_token key s))
          else (Some (expiresAt record, createdAt record), s))"

definition getTtl :: "string \<Rightarrow> int \<Rightarrow> state \<Rightarrow> int option \<times> state" where
  "getTtl key now s =
     (case map_of (map_tok s) key of
        None \<Rightarrow> (None, s)
      | Some record \<Rightarrow>
          (let remaining = max 0 (expiresAt record - now)
           in if remaining = 0 then (None, snd (delete_token key s))
              else (Some \<lceil>real_of_int remaining / 1000\<rceil>, s)))"

text \<open>
  \<open>updateTtl(key, ttlSeconds)\<close>: \<open>now\<close> is the reading of \<open>updateTtl\<close>,
  \<open>now'\<close> the reading of \<open>scheduleExpiry\<close>.
\<close>

definition updateTtl :: "string \<Rightarrow> int \<Rightarrow> int \<Rightarrow> int \<Rightarrow> state \<Rightarrow> bool \<times> state" where
  "updateTtl key ttlSeconds now now' s =
     (case map_of (map_tok s) key of
        None \<Rightarrow> (False, s)
      | Some record \<Rightarrow>
          (let newExpiresAt = now + ttlSeconds * 1000;
               updatedRecord = record\<lparr>expiresAt := newExpiresAt\<rparr>
           in (True,
               scheduleExpiry key newExpiresAt now'
                 (s\<lparr>map_tok := AList.update key updatedRecord (map_tok s)\<rparr>))))"

definition clear :: "state \<Rightarrow> state" where
  "clear s =
     (let s1 = fold (\<lambda>timer. clearTimeout timer) (map snd (timers s)) s
      in s1\<lparr>map_tok := [], timers := []\<rparr>)"

text \<open>
  \<open>keys()\<close>: the loop over \<open>this.map.entries()\<close>. The only entry the body deletes
  is the one it is visiting, so the loop sees every entry the map had at its start.
\<close>

fun keys_loop ::
  "int \<Rightarrow> (string \<times> TokenRecord) list \<Rightarrow> string list \<Rightarrow> state \<Rightarrow> string list \<times> state" where
  "keys_loop now [] validKeys s = (validKeys, s)"
| "keys_loop now ((key, record) # entries) validKeys s =
     (if now < expiresAt record
      then keys_loop now entries (validKeys @ [key]) s
      else keys_loop now entries validKeys (snd (delete_token key s)))"

definition keys :: "int \<Rightarrow> state \<Rightarrow> string list \<times> state" where
  "keys now s = keys_loop now (map_tok s) [] s"

definition getStats :: "state \<Rightarrow> TokenStats" where
  "getStats s =
     (let records = map snd (map_tok s);
          estimatedBytes = fold (\<lambda>record acc. acc + length (token record) * 2 + 32) records 0
      in \<lparr>size_stat = length (map_tok s),
          pendingCleanups = length (timers s),
          memoryUsage = estimatedBytes\<rparr>)"

subsection \<open>What the claims speak of\<close>

text \<open>
  A key is destroyed between \<open>s\<close> and \<open>s'\<close> when \<open>s'\<close> has no record and no
  handle for it, and the handle it had in \<open>s\<close> is no longer pending (it was cleared).
\<close>

definition destroyed :: "string \<Rightarrow> state \<Rightarrow> state \<Rightarrow> bool" where
  "destroyed k s s' \<longleftrightarrow>
     map_of (map_tok s') k = None \<and> map_of (timers s') k = None \<and>
     list_all (\<lambda>t. Some (tid t) \<noteq> map_of (timers s) k) (pending s')"

text \<open>Stores of the test suite: one token of 60 seconds, and a store of \<open>maxSize\<close> 2 that is full.\<close>

definition default_options :: TokenStoreOptions where
  "default_options = \<lparr>maxSize_opt = None, defaultTtl_opt = None, debug_opt = None\<rparr>"

definition example_store :: state where
  "example_store =
     snd (set_token ''mykey'' ''token123'' (Some 60) 1000 1000
            (new_MemoryTokenStore default_options))"

definition example_full :: state where
  "example_full =
     snd (set_token ''key2'' ''token2'' (Some 60) 1000 1000
       (snd (set_token ''key1'' ''token1'' (Some 60) 1000 1000
          (new_MemoryTokenStore (default_options\<lparr>maxSize_opt := Some 2\<rparr>)))))"

text \<open>The long lifetime of the test suite: 30 days, more than one timer segment.\<close>

definition example_long :: state where
  "example_long =
     snd (set_token ''longkey'' ''token123'' (Some 2592000) 1000 1000
            (new_MemoryTokenStore default_options))"

subsection \<open>Runs of the store\<close>

text \<open>
  A call of a public method with the clock readings it takes, or the firing of a timer
  handle; a run is a sequence of them from some state. A call that raises leaves the state
  as it was.
\<close>

datatype call =
    Set string string "int option" int int
  | Get string int
  | Delete string
  | Has string int
  | GetMetadata string int
  | GetTtl string int
  | UpdateTtl string int int int
  | Clear
  | Keys int
  | GetStats
  | Fire nat int int

fun step :: "call \<Rightarrow> state \<Rightarrow> state" where
  "step (Set key tok ttlSeconds now now') s = snd (set_token key tok ttlSeconds now now' s)"
| "step (Get key now) s = snd (get key now s)"
| "step (Delete key) s = snd (delete_token key s)"
| "step (Has key now) s = snd (has key now s)"
| "step (GetMetadata key now) s = snd (getMetadata key now s)"
| "step (GetTtl key now) s = snd (getTtl key now s)"
| "step (UpdateTtl key ttlSeconds now now') s = snd (updateTtl key ttlSeconds now now' s)"
| "step Clear s = clear s"
| "step (Keys now) s = snd (keys now s)"
| "step GetStats s = s"
| "step (Fire h now2 now3) s = fire h now2 now3 s"

definition run :: "call list \<Rightarrow> state \<Rightarrow> state" where
  "run calls s = fold step calls s"

subsection \<open>The chain of segments of one key\<close>

text \<open>
  The timeout that is registered for a key and still pending, if there is one.
\<close>

definition live_timer :: "string \<Rightarrow> state \<Rightarrow> Timeout option" where
  "live_timer key s =
     (case map_of (timers s) key of
        None \<Rightarrow> None
      | Some h \<Rightarrow> find (\<lambda>t. tid t = h) (pending s))"

text \<open>
  The segments of one key fired one after the other, with no other call in between. Node
  never fires a timeout before its delay has run out: the segment set at \<open>started\<close>
  with \<open>delay\<close> fires \<open>late2\<close> ms after \<open>started + delay\<close>, and the
  \<open>scheduleExpiry\<close> it may call reads the clock \<open>late3\<close> ms later still. The
  result is \<open>None\<close> when the list runs out while a segment is pending.
\<close>

fun run_segments :: "string \<Rightarrow> (nat \<times> nat) list \<Rightarrow> state \<Rightarrow> state option" where
  "run_segments key [] s =
     (case live_timer key s of None \<Rightarrow> Some s | Some t \<Rightarrow> None)"
| "run_segments key ((late2, late3) # rest) s =
     (case live_timer key s of
        None \<Rightarrow> Some s
      | Some t \<Rightarrow>
          (let now2 = started t + delay t + int late2
           in run_segments key rest (fire (tid t) now2 (now2 + int late3) s)))"

text \<open>\<open>ceil(totalLifetime / MAX_DELAY)\<close>, as the specification has it.\<close>

definition max_segments :: "int \<Rightarrow> nat" where
  "max_segments totalLifetime = nat \<lceil>real_of_int totalLifetime / real_of_int MAX_TIMEOUT_MS\<rceil>"

subsection \<open>The invariant of the two maps and the timer queue\<close>

text \<open>
  What the handle of a key being cleared leaves of the queue.
\<close>

definition cancelled :: "string \<Rightarrow> state \<Rightarrow> Timeout list" where
  "cancelled k s =
     (case map_of (timers s) k of None \<Rightarrow> pending s
      | Some h \<Rightarrow> filter (\<lambda>t. tid t \<noteq> h) (pending s))"

text \<open>
  Each map has one entry per key, both have the same keys, the pending timeouts are
  the registered handles, each with its key, and handles are fresh.
\<close>

definition invar :: "state \<Rightarrow> bool" where
  "invar s \<longleftrightarrow>
     distinct (map fst (map_tok s)) \<and> distinct (map fst (timers s)) \<and>
     fst ` set (map_tok s) = fst ` set (timers s) \<and>
     distinct (map tid (pending s)) \<and>
     (\<lambda>t. (tkey t, tid t)) ` set (pending s) = set (timers s) \<and>
     (\<forall>t \<in> set (pending s). tid t < next_id s)"

section \<open>Field by field: what each step does to the state\<close>

lemma delete_absent: "map_of al k = None \<Longrightarrow> AList.delete k al = al"
  by (simp add: map_of_eq_None_iff)

lemma delete_token_map_tok: "map_tok (snd (delete_token k s)) = AList.delete k (map_tok s)"
  by (simp add: delete_token_def clearTimeout_def Let_def split: option.splits)

lemma delete_token_timers: "timers (snd (delete_token k s)) = AList.delete k (timers s)"
  by (simp add: delete_token_def clearTimeout_def delete_absent Let_def split: option.splits)

lemma delete_token_pending:
  "pending (snd (delete_token k s)) =
     (case map_of (timers s) k of None \<Rightarrow> pending s
      | Some h \<Rightarrow> filter (\<lambda>t. tid t \<noteq> h) (pending s))"
  by (simp add: delete_token_def clearTimeout_def Let_def split: option.splits)

lemma delete_token_next_id: "next_id (snd (delete_token k s)) = next_id s"
  by (simp add: delete_token_def clearTimeout_def Let_def split: option.splits)

lemma scheduleExpiry_expired:
  "expAt \<le> now \<Longrightarrow> map_tok (scheduleExpiry k expAt now s) = AList.delete k (map_tok s)"
  "expAt \<le> now \<Longrightarrow> timers (scheduleExpiry k expAt now s) = AList.delete k (timers s)"
  "expAt \<le> now \<Longrightarrow> pending (scheduleExpiry k expAt now s) =
     (case map_of (timers s) k of None \<Rightarrow> pending s
      | Some h \<Rightarrow> filter (\<lambda>t. tid t \<noteq> h) (pending s))"
  "expAt \<le> now \<Longrightarrow> next_id (scheduleExpiry k expAt now s) = next_id s"
  by (simp_all add: scheduleExpiry_def clearTimeout_def Let_def split: option.splits)

lemma scheduleExpiry_live:
  "now < expAt \<Longrightarrow> map_tok (scheduleExpiry k expAt now s) = map_tok s"
  "now < expAt \<Longrightarrow> timers (scheduleExpiry k expAt now s) = AList.update k (next_id s) (timers s)"
  "now < expAt \<Longrightarrow> pending (scheduleExpiry k expAt now s) =
     \<lparr>tid = next_id s, tkey = k, delay = min (expAt - now) MAX_TIMEOUT_MS, started = now\<rparr> #
     (case map_of (timers s) k of None \<Rightarrow> pending s
      | Some h \<Rightarrow> filter (\<lambda>t. tid t \<noteq> h) (pending s))"
  "now < expAt \<Longrightarrow> next_id (scheduleExpiry k expAt now s) = Suc (next_id s)"
  by (simp_all add: scheduleExpiry_def clearTimeout_def setTimeout_def Let_def split: option.splits)

lemma delete_token_destroyed: "destroyed k s (snd (delete_token k s))"
  by (auto simp: destroyed_def delete_token_map_tok delete_token_timers delete_token_pending
      delete_conv' list_all_iff split: option.splits)

lemma keys_loop_eq:
  "keys_loop now es acc s =
     (acc @ map fst (filter (\<lambda>(k, r). now < expiresAt r) es),
      fold (\<lambda>k s. snd (delete_token k s))
        (map fst (filter (\<lambda>(k, r). \<not> now < expiresAt r) es)) s)"
  by (induction es arbitrary: acc s) auto

lemma fold_delete_map_tok:
  "map_of (map_tok (fold (\<lambda>k s. snd (delete_token k s)) ks s)) k =
     (if k \<in> set ks then None else map_of (map_tok s) k)"
  by (induction ks arbitrary: s) (auto simp: delete_token_map_tok delete_conv')

lemma fold_delete_timers:
  "map_of (timers (fold (\<lambda>k s. snd (delete_token k s)) ks s)) k =
     (if k \<in> set ks then None else map_of (timers s) k)"
  by (induction ks arbitrary: s) (auto simp: delete_token_timers delete_conv')

lemma fold_delete_pending:
  "t \<in> set (pending (fold (\<lambda>k s. snd (delete_token k s)) ks s)) \<Longrightarrow>
     t \<in> set (pending s) \<and> (\<forall>k \<in> set ks. map_of (timers s) k \<noteq> Some (tid t))"
proof (induction ks arbitrary: s)
  case Nil
  then show ?case by simp
next
  case (Cons k0 ks)
  let ?s1 = "snd (delete_token k0 s)"
  from Cons.prems have "t \<in> set (pending (fold (\<lambda>k s. snd (delete_token k s)) ks ?s1))"
    by simp
  from Cons.IH[OF this]
  have t1: "t \<in> set (pending ?s1)"
    and rest: "\<forall>k \<in> set ks. map_of (timers ?s1) k \<noteq> Some (tid t)"
    by simp_all
  from t1 have t0: "t \<in> set (pending s)" and k0: "map_of (timers s) k0 \<noteq> Some (tid t)"
    by (auto simp: delete_token_pending split: option.splits)
  have "map_of (timers s) k \<noteq> Some (tid t)" if "k \<in> set ks" for k
  proof (cases "k = k0")
    case True
    with k0 show ?thesis by simp
  next
    case False
    with rest that show ?thesis by (auto simp: delete_token_timers delete_conv')
  qed
  with t0 k0 show ?case by auto
qed

lemma keys_destroys_expired:
  assumes "distinct (map fst (map_tok s))" "map_of (map_tok s) k = Some r" "expiresAt r \<le> now"
  shows "k \<notin> set (fst (keys now s)) \<and> destroyed k s (snd (keys now s))"
proof -
  from assms(2) have mem: "(k, r) \<in> set (map_tok s)" by (rule map_of_SomeD)
  have notvalid: "k \<notin> set (fst (keys now s))"
  proof
    assume "k \<in> set (fst (keys now s))"
    then obtain r' where "(k, r') \<in> set (map_tok s)" "now < expiresAt r'"
      by (auto simp: keys_def keys_loop_eq)
    with assms(1) mem have "r' = r" by (meson eq_key_imp_eq_value)
    with \<open>now < expiresAt r'\<close> assms(3) show False by simp
  qed
  from mem assms(3)
  have del: "k \<in> set (map fst (filter (\<lambda>(k, r). \<not> now < expiresAt r) (map_tok s)))"
    by force
  let ?ks = "map fst (filter (\<lambda>(k, r). \<not> now < expiresAt r) (map_tok s))"
  have final: "snd (keys now s) = fold (\<lambda>k s. snd (delete_token k s)) ?ks s"
    by (simp add: keys_def keys_loop_eq)
  have "Some (tid t) \<noteq> map_of (timers s) k" if "t \<in> set (pending (snd (keys now s)))" for t
    using fold_delete_pending[of t ?ks s] that del unfolding final by fastforce
  then have "list_all (\<lambda>t. Some (tid t) \<noteq> map_of (timers s) k) (pending (snd (keys now s)))"
    by (simp add: list_all_iff)
  moreover have "map_of (map_tok (snd (keys now s))) k = None"
    unfolding final using del by (simp only: fold_delete_map_tok if_True)
  moreover have "map_of (timers (snd (keys now s))) k = None"
    unfolding final using del by (simp only: fold_delete_timers if_True)
  ultimately have "destroyed k s (snd (keys now s))"
    by (simp add: destroyed_def)
  with notvalid show ?thesis by simp
qed

lemma scheduleExpiry_destroys:
  "expAt \<le> now \<Longrightarrow> destroyed k s (scheduleExpiry k expAt now s)"
  by (auto simp: destroyed_def scheduleExpiry_expired delete_conv' list_all_iff
      split: option.splits)

lemma scheduleExpiry_expired_pending_subset:
  "expAt \<le> now \<Longrightarrow> set (pending (scheduleExpiry k expAt now s)) \<subseteq> set (pending s)"
  by (auto simp: scheduleExpiry_expired split: option.splits)

lemma destroyed_map_update:
  "destroyed k (s\<lparr>map_tok := m\<rparr>) s' = destroyed k s s'"
  by (simp add: destroyed_def)

lemma ceiling_ms: "\<lceil>real_of_int a / 1000\<rceil> = - ((- a) div 1000)"
  using ceiling_divide_eq_div[of a 1000, where ?'a = real] by simp

lemma div_ms_shift: "(- (n0 + t * 1000 - now)) div 1000 = (now - n0) div 1000 - (t::int)"
proof -
  have "- (n0 + t * 1000 - now) = (now - n0) + (- t) * 1000" by simp
  also have "\<dots> div 1000 = (- t) + (now - n0) div 1000"
    by (rule div_mult_self1) simp
  finally show ?thesis by simp
qed

lemma scheduleExpiry_other:
  "k' \<noteq> k \<Longrightarrow> map_of (map_tok (scheduleExpiry k expAt now s)) k' = map_of (map_tok s) k'"
  "k' \<noteq> k \<Longrightarrow> map_of (timers (scheduleExpiry k expAt now s)) k' = map_of (timers s) k'"
  by (cases "expAt \<le> now"; simp add: scheduleExpiry_expired scheduleExpiry_live
      delete_conv' update_conv')+

lemma expiry_callback_keeps_live:
  assumes "map_of (map_tok s) k = Some r" "now2 < expiresAt r" "now3 < expiresAt r"
  shows "map_of (map_tok (expiry_callback key now2 now3 s)) k = Some r"
proof (cases "key = k")
  case True
  with assms show ?thesis
    by (simp add: expiry_callback_def scheduleExpiry_live)
next
  case False
  with assms(1) show ?thesis
    by (simp add: expiry_callback_def scheduleExpiry_other split: option.splits)
qed

lemma fire_keeps_live:
  assumes "map_of (map_tok s) k = Some r" "now2 < expiresAt r" "now3 < expiresAt r"
  shows "map_of (map_tok (fire h now2 now3 s)) k = Some r"
proof (cases "find (\<lambda>t. tid t = h) (pending s)")
  case None
  with assms(1) show ?thesis by (simp add: fire_def)
next
  case (Some t)
  have "map_of (map_tok (clearTimeout h s)) k = Some r"
    using assms(1) by (simp add: clearTimeout_def)
  from expiry_callback_keeps_live[OF this assms(2,3)] Some show ?thesis
    by (simp add: fire_def)
qed

lemma set_token_live:
  assumes "fst (set_token k v (Some t) n0 n1 s) = Inr ()" "n1 < n0 + t * 1000"
  shows "map_tok (snd (set_token k v (Some t) n0 n1 s)) =
           AList.update k \<lparr>token = v, expiresAt = n0 + t * 1000, createdAt = n0\<rparr> (map_tok s)"
    and "timers (snd (set_token k v (Some t) n0 n1 s)) = AList.update k (next_id s) (timers s)"
    and "pending (snd (set_token k v (Some t) n0 n1 s)) =
           \<lparr>tid = next_id s, tkey = k, delay = min (n0 + t * 1000 - n1) MAX_TIMEOUT_MS,
             started = n1\<rparr> #
           (case map_of (timers s) k of None \<Rightarrow> pending s
            | Some h \<Rightarrow> filter (\<lambda>t. tid t \<noteq> h) (pending s))"
    and "next_id (snd (set_token k v (Some t) n0 n1 s)) = Suc (next_id s)"
proof -
  from assms(1)
  have ok: "\<not> (map_of (map_tok s) k = None \<and> maxSize (options s) \<le> int (length (map_tok s)))"
    by (auto simp: set_token_def Let_def split: if_splits)
  let ?s0 = "s\<lparr>map_tok := AList.update k
      \<lparr>token = v, expiresAt = n0 + t * 1000, createdAt = n0\<rparr> (map_tok s)\<rparr>"
  from ok have eq: "snd (set_token k v (Some t) n0 n1 s) = scheduleExpiry k (n0 + t * 1000) n1 ?s0"
    by (auto simp: set_token_def Let_def)
  show "map_tok (snd (set_token k v (Some t) n0 n1 s)) =
           AList.update k \<lparr>token = v, expiresAt = n0 + t * 1000, createdAt = n0\<rparr> (map_tok s)"
    and "timers (snd (set_token k v (Some t) n0 n1 s)) = AList.update k (next_id s) (timers s)"
    and "pending (snd (set_token k v (Some t) n0 n1 s)) =
           \<lparr>tid = next_id s, tkey = k, delay = min (n0 + t * 1000 - n1) MAX_TIMEOUT_MS,
             started = n1\<rparr> #
           (case map_of (timers s) k of None \<Rightarrow> pending s
            | Some h \<Rightarrow> filter (\<lambda>t. tid t \<noteq> h) (pending s))"
    and "next_id (snd (set_token k v (Some t) n0 n1 s)) = Suc (next_id s)"
    unfolding eq using assms(2) by (simp_all add: scheduleExpiry_live split: option.splits)
qed

lemma new_store_set_ok:
  "fst (set_token k v ttl n0 n1 (new_MemoryTokenStore default_options)) = Inr ()"
  by (simp add: set_token_def new_MemoryTokenStore_def default_options_def or_number_def
      MAX_SAFE_INTEGER_def Let_def)

lemma updateTtl_present:
  assumes "map_of (map_tok s) k = Some r"
  shows "updateTtl k t n0 n1 s =
    (True, scheduleExpiry k (n0 + t * 1000) n1
       (s\<lparr>map_tok := AList.update k (r\<lparr>expiresAt := n0 + t * 1000\<rparr>) (map_tok s)\<rparr>))"
  using assms by (simp add: updateTtl_def Let_def)

lemma ttl_window:
  assumes "b0 \<le> c" "c < b0 + 5000"
  shows "115 < \<lceil>real_of_int (b0 + 120 * 1000 - c) / 1000\<rceil>"
    and "\<lceil>real_of_int (b0 + 120 * 1000 - c) / 1000\<rceil> \<le> 120"
  using assms by (simp_all add: less_ceiling_iff ceiling_le_iff)

section \<open>The example stores, evaluated\<close>

lemma example_store_eq:
  "example_store =
     \<lparr>map_tok = [(''mykey'', \<lparr>token = ''token123'', expiresAt = 61000, createdAt = 1000\<rparr>)],
      timers = [(''mykey'', 0)],
      options = \<lparr>maxSize = 9007199254740991, defaultTtl = 3600, debug = False\<rparr>,
      pending = [\<lparr>tid = 0, tkey = ''mykey'', delay = 60000, started = 1000\<rparr>],
      next_id = 1\<rparr>"
  by (simp add: example_store_def default_options_def new_MemoryTokenStore_def or_number_def
      or_bool_def MAX_SAFE_INTEGER_def MAX_TIMEOUT_MS_def set_token_def scheduleExpiry_def
      setTimeout_def Let_def)

lemma example_full_eq:
  "example_full =
     \<lparr>map_tok = [(''key1'', \<lparr>token = ''token1'', expiresAt = 61000, createdAt = 1000\<rparr>),
                 (''key2'', \<lparr>token = ''token2'', expiresAt = 61000, createdAt = 1000\<rparr>)],
      timers = [(''key1'', 0), (''key2'', 1)],
      options = \<lparr>maxSize = 2, defaultTtl = 3600, debug = False\<rparr>,
      pending = [\<lparr>tid = 1, tkey = ''key2'', delay = 60000, started = 1000\<rparr>,
                 \<lparr>tid = 0, tkey = ''key1'', delay = 60000, started = 1000\<rparr>],
      next_id = 2\<rparr>"
  by (simp add: example_full_def default_options_def new_MemoryTokenStore_def or_number_def
      or_bool_def MAX_SAFE_INTEGER_def MAX_TIMEOUT_MS_def set_token_def scheduleExpiry_def
      setTimeout_def Let_def)

lemma example_long_eq:
  "example_long =
     \<lparr>map_tok = [(''longkey'', \<lparr>token = ''token123'', expiresAt = 2592001000, createdAt = 1000\<rparr>)],
      timers = [(''longkey'', 0)],
      options = \<lparr>maxSize = 9007199254740991, defaultTtl = 3600, debug = False\<rparr>,
      pending = [\<lparr>tid = 0, tkey = ''longkey'', delay = 2147483647, started = 1000\<rparr>],
      next_id = 1\<rparr>"
  by (simp add: example_long_def default_options_def new_MemoryTokenStore_def or_number_def
      or_bool_def MAX_SAFE_INTEGER_def MAX_TIMEOUT_MS_def set_token_def scheduleExpiry_def
      setTimeout_def Let_def)

section \<open>The invariant is kept by every step\<close>

lemma filter_handle_is_filter_key:
  assumes dT: "distinct (map fst T)" and dP: "distinct (map g P)"
    and eq: "(\<lambda>t. (f t, g t)) ` set P = set T" and kh: "map_of T k = Some h"
  shows "filter (\<lambda>t. g t \<noteq> h) P = filter (\<lambda>t. f t \<noteq> k) P"
proof (rule filter_cong[OF refl])
  fix t assume t: "t \<in> set P"
  from kh have mem: "(k, h) \<in> set T" by (rule map_of_SomeD)
  show "(g t \<noteq> h) = (f t \<noteq> k)"
  proof
    assume ne: "g t \<noteq> h"
    show "f t \<noteq> k"
    proof
      assume "f t = k"
      with t eq have "(k, g t) \<in> set T" by (metis (mono_tags, lifting) image_eqI)
      with dT mem have "g t = h" by (meson eq_key_imp_eq_value)
      with ne show False by simp
    qed
  next
    assume ne: "f t \<noteq> k"
    show "g t \<noteq> h"
    proof
      assume th: "g t = h"
      from mem eq have "(k, h) \<in> (\<lambda>t. (f t, g t)) ` set P" by simp
      then obtain t' where t': "t' \<in> set P" "f t' = k" "g t' = h" by blast
      from dP have "inj_on g (set P)" by (simp add: distinct_map)
      with t t' th have "t' = t" by (simp add: inj_on_def)
      with t' ne show False by simp
    qed
  qed
qed

lemma filter_key_absent:
  assumes eq: "(\<lambda>t. (f t, g t)) ` set P = set T" and k: "map_of T k = None"
  shows "filter (\<lambda>t. f t \<noteq> k) P = P"
proof -
  have "f ` set P = fst ` (\<lambda>t. (f t, g t)) ` set P" by (simp add: image_image)
  also have "\<dots> = fst ` set T" by (simp only: eq)
  finally have "f ` set P = fst ` set T" .
  moreover from k have "k \<notin> fst ` set T" by (simp add: map_of_eq_None_iff)
  ultimately have "k \<notin> f ` set P" by simp
  then show ?thesis by (auto simp: filter_id_conv)
qed

lemma invar_cancelled:
  assumes "invar s"
  shows "cancelled k s = filter (\<lambda>t. tkey t \<noteq> k) (pending s)"
proof (cases "map_of (timers s) k")
  case None
  from assms have "(\<lambda>t. (tkey t, tid t)) ` set (pending s) = set (timers s)"
    by (simp add: invar_def)
  from filter_key_absent[OF this None] None show ?thesis
    by (simp add: cancelled_def)
next
  case (Some h)
  from assms have "distinct (map fst (timers s))" "distinct (map tid (pending s))"
    "(\<lambda>t. (tkey t, tid t)) ` set (pending s) = set (timers s)"
    by (simp_all add: invar_def)
  from filter_handle_is_filter_key[OF this Some] Some show ?thesis
    by (simp add: cancelled_def)
qed

lemma set_delete: "set (AList.delete k al) = {p \<in> set al. fst p \<noteq> k}"
  by (induction al) auto

lemma set_update_distinct:
  "distinct (map fst al) \<Longrightarrow>
     set (AList.update k v al) = insert (k, v) {p \<in> set al. fst p \<noteq> k}"
proof (induction al)
  case Nil
  then show ?case by simp
next
  case (Cons p al)
  show ?case
  proof (cases "fst p = k")
    case True
    with Cons.prems have "k \<notin> fst ` set al" by simp
    then have "{q \<in> set al. fst q \<noteq> k} = set al" by auto
    with True show ?thesis by auto
  next
    case False
    with Cons show ?thesis by auto
  qed
qed

lemma dom_delete: "fst ` set (AList.delete k al) = fst ` set al - {k}"
  by (induction al) auto

lemma image_pair_filter:
  "(\<lambda>t. (f t, g t)) ` set (filter (\<lambda>t. f t \<noteq> k) xs) =
     {p \<in> (\<lambda>t. (f t, g t)) ` set xs. fst p \<noteq> k}"
proof (rule set_eqI)
  fix p
  show "p \<in> (\<lambda>t. (f t, g t)) ` set (filter (\<lambda>t. f t \<noteq> k) xs) \<longleftrightarrow>
        p \<in> {p \<in> (\<lambda>t. (f t, g t)) ` set xs. fst p \<noteq> k}"
    by (cases p) (simp add: image_iff, blast)
qed

lemma invar_removeI:
  assumes "invar s"
    and "map_tok s' = AList.delete k (map_tok s)"
    and "timers s' = AList.delete k (timers s)"
    and "pending s' = cancelled k s"
    and "next_id s \<le> next_id s'"
  shows "invar s'"
proof -
  from assms(1) have inv: "distinct (map fst (map_tok s))" "distinct (map fst (timers s))"
    "fst ` set (map_tok s) = fst ` set (timers s)" "distinct (map tid (pending s))"
    "(\<lambda>t. (tkey t, tid t)) ` set (pending s) = set (timers s)"
    "\<forall>t \<in> set (pending s). tid t < next_id s"
    by (simp_all add: invar_def)
  have P: "pending s' = filter (\<lambda>t. tkey t \<noteq> k) (pending s)"
    using assms(4) invar_cancelled[OF assms(1)] by simp
  have 1: "distinct (map fst (map_tok s'))" "distinct (map fst (timers s'))"
    using inv(1,2) assms(2,3) by (simp_all add: distinct_delete)
  have 2: "fst ` set (map_tok s') = fst ` set (timers s')"
    unfolding assms(2,3) dom_delete inv(3) ..
  have 3: "distinct (map tid (pending s'))"
    using inv(4) unfolding P by (rule distinct_map_filter)
  have 4: "(\<lambda>t. (tkey t, tid t)) ` set (pending s') = set (timers s')"
    unfolding P assms(3) set_delete image_pair_filter inv(5) ..
  have 5: "\<forall>t \<in> set (pending s'). tid t < next_id s'"
  proof
    fix t assume "t \<in> set (pending s')"
    then have "t \<in> set (pending s)" unfolding P by simp
    with inv(6) assms(5) show "tid t < next_id s'" by fastforce
  qed
  from 1 2 3 4 5 show ?thesis by (simp add: invar_def)
qed

lemma invar_armI:
  assumes "invar s"
    and "distinct (map fst (map_tok s'))"
    and "fst ` set (map_tok s') = insert k (fst ` set (map_tok s))"
    and "timers s' = AList.update k (next_id s) (timers s)"
    and "pending s' = \<lparr>tid = next_id s, tkey = k, delay = d, started = n\<rparr> # cancelled k s"
    and "next_id s' = Suc (next_id s)"
  shows "invar s'"
proof -
  from assms(1) have inv: "distinct (map fst (map_tok s))" "distinct (map fst (timers s))"
    "fst ` set (map_tok s) = fst ` set (timers s)" "distinct (map tid (pending s))"
    "(\<lambda>t. (tkey t, tid t)) ` set (pending s) = set (timers s)"
    "\<forall>t \<in> set (pending s). tid t < next_id s"
    by (simp_all add: invar_def)
  let ?new = "\<lparr>tid = next_id s, tkey = k, delay = d, started = n\<rparr>"
  have P: "pending s' = ?new # filter (\<lambda>t. tkey t \<noteq> k) (pending s)"
    using assms(5) invar_cancelled[OF assms(1)] by simp
  have 1: "distinct (map fst (timers s'))"
    using inv(2) assms(4) by (simp add: distinct_update)
  have 2: "fst ` set (map_tok s') = fst ` set (timers s')"
    using inv(3) unfolding assms(3,4) dom_update by simp
  have fresh: "next_id s \<notin> tid ` set (filter (\<lambda>t. tkey t \<noteq> k) (pending s))"
  proof
    assume "next_id s \<in> tid ` set (filter (\<lambda>t. tkey t \<noteq> k) (pending s))"
    then obtain t where "t \<in> set (pending s)" "tid t = next_id s" by auto
    with inv(6) show False by auto
  qed
  have 3: "distinct (map tid (pending s'))"
    unfolding P using fresh distinct_map_filter[OF inv(4)] by simp
  have "(\<lambda>t. (tkey t, tid t)) ` set (pending s') =
      insert (k, next_id s) ((\<lambda>t. (tkey t, tid t)) ` set (filter (\<lambda>t. tkey t \<noteq> k) (pending s)))"
    unfolding P by simp
  then have 4: "(\<lambda>t. (tkey t, tid t)) ` set (pending s') = set (timers s')"
    unfolding assms(4) set_update_distinct[OF inv(2)] image_pair_filter inv(5) .
  have 5: "\<forall>t \<in> set (pending s'). tid t < next_id s'"
  proof
    fix t assume "t \<in> set (pending s')"
    then have "t = ?new \<or> t \<in> set (pending s)" unfolding P by auto
    then show "tid t < next_id s'"
    proof
      assume "t = ?new"
      then show ?thesis by (simp add: assms(6))
    next
      assume "t \<in> set (pending s)"
      with inv(6) have "tid t < next_id s" by simp
      then show ?thesis by (simp add: assms(6))
    qed
  qed
  from assms(2) 1 2 3 4 5 show ?thesis by (simp add: invar_def)
qed

lemma cancelled_map_tok_update [simp]: "cancelled k (s\<lparr>map_tok := m\<rparr>) = cancelled k s"
  by (simp add: cancelled_def split: option.splits)

lemma delete_token_cancels: "pending (snd (delete_token k s)) = cancelled k s"
  by (simp add: delete_token_pending cancelled_def)

lemma scheduleExpiry_cancels:
  "expAt \<le> now \<Longrightarrow> pending (scheduleExpiry k expAt now s) = cancelled k s"
  "now < expAt \<Longrightarrow> pending (scheduleExpiry k expAt now s) =
     \<lparr>tid = next_id s, tkey = k, delay = min (expAt - now) MAX_TIMEOUT_MS, started = now\<rparr> #
     cancelled k s"
  by (simp_all add: scheduleExpiry_expired scheduleExpiry_live cancelled_def)

lemma invar_delete_token:
  assumes "invar s"
  shows "invar (snd (delete_token k s))"
proof (rule invar_removeI[OF assms, where k = k])
  show "map_tok (snd (delete_token k s)) = AList.delete k (map_tok s)"
    by (rule delete_token_map_tok)
  show "timers (snd (delete_token k s)) = AList.delete k (timers s)"
    by (rule delete_token_timers)
  show "pending (snd (delete_token k s)) = cancelled k s"
    by (rule delete_token_cancels)
  show "next_id s \<le> next_id (snd (delete_token k s))"
    by (simp add: delete_token_next_id)
qed

lemma invar_schedule_after_update:
  assumes "invar s"
  shows "invar (scheduleExpiry k e n (s\<lparr>map_tok := AList.update k rec (map_tok s)\<rparr>))"
proof (cases "e \<le> n")
  case True
  let ?s0 = "s\<lparr>map_tok := AList.update k rec (map_tok s)\<rparr>"
  show ?thesis
  proof (rule invar_removeI[OF assms, where k = k])
    show "map_tok (scheduleExpiry k e n ?s0) = AList.delete k (map_tok s)"
      by (simp add: scheduleExpiry_expired(1)[OF True] delete_update_same)
    show "timers (scheduleExpiry k e n ?s0) = AList.delete k (timers s)"
      by (simp add: scheduleExpiry_expired(2)[OF True])
    show "pending (scheduleExpiry k e n ?s0) = cancelled k s"
      by (simp add: scheduleExpiry_cancels(1)[OF True])
    show "next_id s \<le> next_id (scheduleExpiry k e n ?s0)"
      by (simp add: scheduleExpiry_expired(4)[OF True])
  qed
next
  case False
  then have live: "n < e" by simp
  let ?s0 = "s\<lparr>map_tok := AList.update k rec (map_tok s)\<rparr>"
  from assms have d: "distinct (map fst (map_tok s))" by (simp add: invar_def)
  show ?thesis
  proof (rule invar_armI[OF assms, where k = k and d = "min (e - n) MAX_TIMEOUT_MS" and n = n])
    show "distinct (map fst (map_tok (scheduleExpiry k e n ?s0)))"
      by (simp add: scheduleExpiry_live(1)[OF live] distinct_update[OF d])
    show "fst ` set (map_tok (scheduleExpiry k e n ?s0)) = insert k (fst ` set (map_tok s))"
      by (simp add: scheduleExpiry_live(1)[OF live] dom_update)
    show "timers (scheduleExpiry k e n ?s0) = AList.update k (next_id s) (timers s)"
      by (simp add: scheduleExpiry_live(2)[OF live])
    show "pending (scheduleExpiry k e n ?s0) =
        \<lparr>tid = next_id s, tkey = k, delay = min (e - n) MAX_TIMEOUT_MS, started = n\<rparr> #
        cancelled k s"
      by (simp add: scheduleExpiry_cancels(2)[OF live])
    show "next_id (scheduleExpiry k e n ?s0) = Suc (next_id s)"
      by (simp add: scheduleExpiry_live(4)[OF live])
  qed
qed

lemma invar_set_token: "invar s \<Longrightarrow> invar (snd (set_token k v ttl n0 n1 s))"
  by (simp add: set_token_def Let_def invar_schedule_after_update)

lemma invar_updateTtl: "invar s \<Longrightarrow> invar (snd (updateTtl k t n0 n1 s))"
  by (simp add: updateTtl_def Let_def invar_schedule_after_update split: option.splits)

lemma invar_get: "invar s \<Longrightarrow> invar (snd (get k now s))"
  by (simp add: get_def invar_delete_token split: option.splits)

lemma invar_has: "invar s \<Longrightarrow> invar (snd (has k now s))"
  by (simp add: has_def invar_delete_token split: option.splits)

lemma invar_getMetadata: "invar s \<Longrightarrow> invar (snd (getMetadata k now s))"
  by (simp add: getMetadata_def invar_delete_token split: option.splits)

lemma invar_getTtl: "invar s \<Longrightarrow> invar (snd (getTtl k now s))"
  by (simp add: getTtl_def Let_def invar_delete_token split: option.splits)

lemma invar_fold_delete:
  "invar s \<Longrightarrow> invar (fold (\<lambda>k s. snd (delete_token k s)) ks s)"
  by (induction ks arbitrary: s) (simp_all add: invar_delete_token)

lemma invar_keys: "invar s \<Longrightarrow> invar (snd (keys now s))"
  by (simp add: keys_def keys_loop_eq invar_fold_delete)

lemma fold_clearTimeout:
  "fold (\<lambda>timer. clearTimeout timer) hs s =
     s\<lparr>pending := filter (\<lambda>t. tid t \<notin> set hs) (pending s)\<rparr>"
proof (induction hs arbitrary: s)
  case Nil
  then show ?case by simp
next
  case (Cons h hs)
  have "filter (\<lambda>t. tid t \<notin> set hs) (filter (\<lambda>t. tid t \<noteq> h) (pending s)) =
      filter (\<lambda>t. tid t \<notin> set (h # hs)) (pending s)"
    by (auto intro: filter_cong)
  with Cons show ?case by (simp add: clearTimeout_def)
qed

lemma invar_clear:
  assumes "invar s"
  shows "invar (clear s)"
proof -
  from assms have eq: "(\<lambda>t. (tkey t, tid t)) ` set (pending s) = set (timers s)"
    by (simp add: invar_def)
  have "tid t \<in> snd ` set (timers s)" if "t \<in> set (pending s)" for t
  proof -
    from that have "(tkey t, tid t) \<in> (\<lambda>t. (tkey t, tid t)) ` set (pending s)"
      by (rule imageI)
    then have "(tkey t, tid t) \<in> set (timers s)" by (simp only: eq)
    then have "snd (tkey t, tid t) \<in> snd ` set (timers s)" by (rule imageI)
    then show ?thesis by simp
  qed
  then have "filter (\<lambda>t. tid t \<notin> set (map snd (timers s))) (pending s) = []"
    by (simp add: filter_empty_conv)
  then show ?thesis
    by (simp add: clear_def fold_clearTimeout invar_def)
qed

lemma find_SomeD: "find P xs = Some x \<Longrightarrow> x \<in> set xs \<and> P x"
  by (induction xs) (auto split: if_splits)

lemma invar_fire:
  assumes inv: "invar s"
  shows "invar (fire h now2 now3 s)"
proof (cases "find (\<lambda>t. tid t = h) (pending s)")
  case None
  with inv show ?thesis by (simp add: fire_def)
next
  case (Some t0)
  from inv have dM: "distinct (map fst (map_tok s))" and dT: "distinct (map fst (timers s))"
    and dom: "fst ` set (map_tok s) = fst ` set (timers s)"
    and eq: "(\<lambda>t. (tkey t, tid t)) ` set (pending s) = set (timers s)"
    by (simp_all add: invar_def)
  let ?k = "tkey t0"
  let ?s1 = "clearTimeout h s"
  from find_SomeD[OF Some] have t0: "t0 \<in> set (pending s)" "tid t0 = h"
    by simp_all
  from t0(1) have "(tkey t0, tid t0) \<in> (\<lambda>t. (tkey t, tid t)) ` set (pending s)"
    by (rule imageI)
  then have "(?k, h) \<in> (\<lambda>t. (tkey t, tid t)) ` set (pending s)"
    by (simp only: t0(2))
  then have mem: "(?k, h) \<in> set (timers s)" by (simp only: eq)
  with dT have handle: "map_of (timers s) ?k = Some h" by simp
  then have canc: "cancelled ?k s = filter (\<lambda>t. tid t \<noteq> h) (pending s)"
    by (simp add: cancelled_def)
  from mem have "fst (?k, h) \<in> fst ` set (timers s)" by (rule imageI)
  then have "?k \<in> fst ` set (timers s)" by simp
  then have kdom: "?k \<in> fst ` set (map_tok s)" by (simp only: dom)
  then have "map_of (map_tok s) ?k \<noteq> None" by (simp add: map_of_eq_None_iff)
  then obtain rec where rec: "map_of (map_tok s) ?k = Some rec" by blast
  have s1: "map_tok ?s1 = map_tok s" "timers ?s1 = timers s" "next_id ?s1 = next_id s"
    "pending ?s1 = cancelled ?k s"
    by (simp_all add: clearTimeout_def canc)
  have twice: "filter (\<lambda>t. tid t \<noteq> h) (cancelled ?k s) = cancelled ?k s"
    by (simp add: canc)
  have fire_eq: "fire h now2 now3 s = expiry_callback ?k now2 now3 ?s1"
    using Some by (simp add: fire_def)
  show ?thesis
  proof (cases "expiresAt rec \<le> now2")
    case True
    then have "expiry_callback ?k now2 now3 ?s1 =
        ?s1\<lparr>map_tok := AList.delete ?k (map_tok ?s1), timers := AList.delete ?k (timers ?s1)\<rparr>"
      using rec by (simp add: expiry_callback_def s1)
    then show ?thesis
      unfolding fire_eq
      by (intro invar_removeI[OF inv, where k = ?k]) (simp_all add: s1)
  next
    case False
    then have cb: "expiry_callback ?k now2 now3 ?s1 = scheduleExpiry ?k (expiresAt rec) now3 ?s1"
      using rec by (simp add: expiry_callback_def s1)
    show ?thesis
    proof (cases "expiresAt rec \<le> now3")
      case True
      show ?thesis
        unfolding fire_eq cb
        by (rule invar_removeI[OF inv, where k = ?k])
          (simp_all add: scheduleExpiry_expired[OF True] s1 handle twice)
    next
      case False
      then have live: "now3 < expiresAt rec" by simp
      from kdom have ins: "insert ?k (fst ` set (map_tok s)) = fst ` set (map_tok s)" by auto
      show ?thesis
        unfolding fire_eq cb
        by (rule invar_armI[OF inv, where k = ?k
              and d = "min (expiresAt rec - now3) MAX_TIMEOUT_MS" and n = now3])
          (simp_all add: scheduleExpiry_live[OF live] s1 handle twice dM ins)
    qed
  qed
qed

lemma invar_step: "invar s \<Longrightarrow> invar (step c s)"
  by (cases c)
    (simp_all add: invar_set_token invar_get invar_delete_token invar_has invar_getMetadata
      invar_getTtl invar_updateTtl invar_clear invar_keys invar_fire)

lemma invar_run: "invar s \<Longrightarrow> invar (run calls s)"
  unfolding run_def by (induction calls arbitrary: s) (simp_all add: invar_step)

lemma invar_new: "invar (new_MemoryTokenStore opts)"
  by (simp add: invar_def new_MemoryTokenStore_def)

lemma invar_one_timeout_per_key:
  assumes "invar s"
  shows "distinct (map tkey (pending s))"
proof -
  from assms have dT: "distinct (map fst (timers s))" and dP: "distinct (map tid (pending s))"
    and eq: "(\<lambda>t. (tkey t, tid t)) ` set (pending s) = set (timers s)"
    by (simp_all add: invar_def)
  from dP have dist: "distinct (pending s)" and inj: "inj_on tid (set (pending s))"
    by (simp_all add: distinct_map)
  have "inj_on tkey (set (pending s))"
  proof (rule inj_onI)
    fix t1 t2
    assume t: "t1 \<in> set (pending s)" "t2 \<in> set (pending s)" and k: "tkey t1 = tkey t2"
    from t(1) have "(tkey t1, tid t1) \<in> (\<lambda>t. (tkey t, tid t)) ` set (pending s)"
      by (rule imageI)
    moreover
    from t(2) have "(tkey t2, tid t2) \<in> (\<lambda>t. (tkey t, tid t)) ` set (pending s)"
      by (rule imageI)
    ultimately
    have "(tkey t1, tid t1) \<in> set (timers s)" "(tkey t1, tid t2) \<in> set (timers s)"
      by (simp_all only: eq k)
    with dT have "tid t1 = tid t2" by (meson eq_key_imp_eq_value)
    with inj t show "t1 = t2" by (simp add: inj_on_def)
  qed
  with dist show ?thesis by (simp add: distinct_map)
qed

section \<open>The chain of segments ends\<close>

lemma MAX_TIMEOUT_MS_pos: "0 < MAX_TIMEOUT_MS"
  by (simp add: MAX_TIMEOUT_MS_def)

lemma run_segments_done:
  "map_of (timers s) k = None \<Longrightarrow> run_segments k lates s = Some s"
  by (cases lates) (auto simp: live_timer_def)

lemma max_segments_fuel:
  assumes "max_segments life \<le> n"
  shows "life \<le> int n * MAX_TIMEOUT_MS"
proof -
  have "real_of_int life / real_of_int MAX_TIMEOUT_MS
      \<le> real_of_int \<lceil>real_of_int life / real_of_int MAX_TIMEOUT_MS\<rceil>"
    by (rule le_of_int_ceiling)
  also have "\<dots> \<le> real (max_segments life)"
    by (simp add: max_segments_def)
  also have "\<dots> \<le> real n" using assms by simp
  finally have "real_of_int life \<le> real n * real_of_int MAX_TIMEOUT_MS"
    using MAX_TIMEOUT_MS_pos by (simp add: pos_divide_le_eq)
  then have "real_of_int life \<le> real_of_int (int n * MAX_TIMEOUT_MS)" by simp
  then show ?thesis by (simp only: of_int_le_iff)
qed

lemma max_segments_count:
  assumes "(c - 1) * MAX_TIMEOUT_MS < life"
  shows "c \<le> int (max_segments life)"
proof -
  from assms have "real_of_int ((c - 1) * MAX_TIMEOUT_MS) < real_of_int life"
    by (simp only: of_int_less_iff)
  then have "real_of_int (c - 1) < real_of_int life / real_of_int MAX_TIMEOUT_MS"
    using MAX_TIMEOUT_MS_pos by (simp add: pos_less_divide_eq)
  also have "\<dots> \<le> real_of_int \<lceil>real_of_int life / real_of_int MAX_TIMEOUT_MS\<rceil>"
    by (rule le_of_int_ceiling)
  finally have "c - 1 < \<lceil>real_of_int life / real_of_int MAX_TIMEOUT_MS\<rceil>"
    by (simp only: of_int_less_iff)
  then have "c \<le> \<lceil>real_of_int life / real_of_int MAX_TIMEOUT_MS\<rceil>" by linarith
  also have "\<dots> \<le> int (nat \<lceil>real_of_int life / real_of_int MAX_TIMEOUT_MS\<rceil>)"
    by linarith
  finally show ?thesis by (simp only: max_segments_def)
qed


lemma live_timerD:
  assumes "live_timer k s = Some t"
  shows "map_of (timers s) k = Some (tid t)" and "find (\<lambda>x. tid x = tid t) (pending s) = Some t"
proof -
  from assms obtain h where h: "map_of (timers s) k = Some h"
    and f: "find (\<lambda>x. tid x = h) (pending s) = Some t"
    by (auto simp: live_timer_def split: option.splits)
  from find_SomeD[OF f] have "tid t = h" by simp
  with h f show "map_of (timers s) k = Some (tid t)"
    and "find (\<lambda>x. tid x = tid t) (pending s) = Some t"
    by simp_all
qed

lemma scheduleExpiry_live_timer:
  assumes "now < expAt"
  shows "live_timer k (scheduleExpiry k expAt now s) =
    Some \<lparr>tid = next_id s, tkey = k, delay = min (expAt - now) MAX_TIMEOUT_MS, started = now\<rparr>"
  by (simp add: live_timer_def scheduleExpiry_live(2)[OF assms] scheduleExpiry_cancels(2)[OF assms]
      update_conv')

lemma segments_reclaim:
  assumes "map_of (map_tok s) k = Some r" and "live_timer k s = Some t" and "tkey t = k"
    and "delay t = min (expiresAt r - started t) MAX_TIMEOUT_MS"
    and "started t < expiresAt r"
    and "expiresAt r - started t \<le> int (length lates) * MAX_TIMEOUT_MS"
  shows "\<exists>s'. run_segments k lates s = Some s'
    \<and> map_of (map_tok s') k = None \<and> map_of (timers s') k = None
    \<and> int (next_id s') * MAX_TIMEOUT_MS
        < int (next_id s) * MAX_TIMEOUT_MS + (expiresAt r - started t)"
  using assms
proof (induction lates arbitrary: s t)
  case Nil
  then show ?case by simp
next
  case (Cons late rest)
  obtain late2 late3 where late: "late = (late2, late3)" by (cases late)
  let ?h = "tid t"
  let ?e = "expiresAt r"
  let ?now2 = "started t + delay t + int late2"
  let ?now3 = "?now2 + int late3"
  let ?s1 = "clearTimeout ?h s"
  note rec = Cons.prems(1) and lt = Cons.prems(2) and key = Cons.prems(3)
    and dl = Cons.prems(4) and pos = Cons.prems(5) and fuel = Cons.prems(6)
  from live_timerD[OF lt] have handle: "map_of (timers s) k = Some ?h"
    and found: "find (\<lambda>x. tid x = ?h) (pending s) = Some t" .
  have step: "run_segments k (late # rest) s = run_segments k rest (fire ?h ?now2 ?now3 s)"
    by (simp add: late lt Let_def)
  have fire_eq: "fire ?h ?now2 ?now3 s = expiry_callback k ?now2 ?now3 ?s1"
    by (simp add: fire_def found key)
  have s1: "map_tok ?s1 = map_tok s" "timers ?s1 = timers s" "next_id ?s1 = next_id s"
    by (simp_all add: clearTimeout_def)
  have removed: ?case
    if gone: "map_of (map_tok s') k = None" "map_of (timers s') k = None"
      "next_id s' = next_id s" and s': "fire ?h ?now2 ?now3 s = s'" for s'
  proof -
    have "run_segments k (late # rest) s = Some s'"
      unfolding step s' by (rule run_segments_done[OF gone(2)])
    with gone pos show ?thesis by simp
  qed
  show ?case
  proof (cases "?e \<le> ?now2")
    case True
    let ?s' = "?s1\<lparr>map_tok := AList.delete k (map_tok ?s1), timers := AList.delete k (timers ?s1)\<rparr>"
    have "fire ?h ?now2 ?now3 s = ?s'"
      unfolding fire_eq using rec True by (simp add: expiry_callback_def s1)
    moreover have "map_of (map_tok ?s') k = None" "map_of (timers ?s') k = None"
      "next_id ?s' = next_id s"
      by (simp_all add: delete_conv' s1)
    ultimately show ?thesis by (intro removed[of ?s']) simp_all
  next
    case False
    then have cb: "fire ?h ?now2 ?now3 s = scheduleExpiry k ?e ?now3 ?s1"
      unfolding fire_eq using rec by (simp add: expiry_callback_def s1)
    from False dl have full: "delay t = MAX_TIMEOUT_MS" by (simp add: min_def split: if_splits)
    show ?thesis
    proof (cases "?e \<le> ?now3")
      case True
      have "map_of (map_tok (scheduleExpiry k ?e ?now3 ?s1)) k = None"
        "map_of (timers (scheduleExpiry k ?e ?now3 ?s1)) k = None"
        "next_id (scheduleExpiry k ?e ?now3 ?s1) = next_id s"
        by (simp_all add: scheduleExpiry_expired[OF True] delete_conv' s1)
      then show ?thesis using cb by (intro removed[of "scheduleExpiry k ?e ?now3 ?s1"]) simp_all
    next
      case False
      then have live: "?now3 < ?e" by simp
      let ?s2 = "scheduleExpiry k ?e ?now3 ?s1"
      let ?t2 = "\<lparr>tid = next_id s, tkey = k, delay = min (?e - ?now3) MAX_TIMEOUT_MS,
        started = ?now3\<rparr>"
      have rec2: "map_of (map_tok ?s2) k = Some r"
        using rec by (simp add: scheduleExpiry_live(1)[OF live] s1)
      have lt2: "live_timer k ?s2 = Some ?t2"
        using scheduleExpiry_live_timer[OF live, of k ?s1] by (simp add: s1)
      have n2: "next_id ?s2 = Suc (next_id s)"
        by (simp add: scheduleExpiry_live(4)[OF live] s1)
      have less: "?e - ?now3 \<le> ?e - started t - MAX_TIMEOUT_MS"
        using full by simp
      have fuel2: "?e - started ?t2 \<le> int (length rest) * MAX_TIMEOUT_MS"
      proof -
        from fuel have "?e - started t \<le> int (length rest) * MAX_TIMEOUT_MS + MAX_TIMEOUT_MS"
          by (simp add: algebra_simps)
        with less show ?thesis by simp
      qed
      from Cons.IH[OF rec2 lt2 _ _ _ fuel2] live
      obtain s' where s': "run_segments k rest ?s2 = Some s'"
        "map_of (map_tok s') k = None" "map_of (timers s') k = None"
        "int (next_id s') * MAX_TIMEOUT_MS
          < int (next_id ?s2) * MAX_TIMEOUT_MS + (?e - started ?t2)"
        by auto
      from s'(4) less have "int (next_id s') * MAX_TIMEOUT_MS
          < int (next_id s) * MAX_TIMEOUT_MS + (?e - started t)"
        unfolding n2 by (simp add: algebra_simps)
      with s'(1,2,3) show ?thesis
        unfolding step cb by blast
    qed
  qed
qed

lemma schedule_chain:
  assumes rec: "map_of (map_tok s0) k = Some r" and e: "expiresAt r = e"
    and life: "e - n1 \<le> life" and fuel: "max_segments life \<le> length lates"
  shows "\<exists>s'. run_segments k lates (scheduleExpiry k e n1 s0) = Some s'
    \<and> map_of (map_tok s') k = None \<and> map_of (timers s') k = None
    \<and> next_id s' \<le> next_id s0 + max_segments life"
proof (cases "e \<le> n1")
  case True
  let ?s1 = "scheduleExpiry k e n1 s0"
  have "map_of (map_tok ?s1) k = None" "map_of (timers ?s1) k = None" "next_id ?s1 = next_id s0"
    by (simp_all add: scheduleExpiry_expired[OF True] delete_conv')
  with run_segments_done[of ?s1 k lates] show ?thesis by simp
next
  case False
  then have live: "n1 < e" by simp
  let ?s1 = "scheduleExpiry k e n1 s0"
  let ?t = "\<lparr>tid = next_id s0, tkey = k, delay = min (e - n1) MAX_TIMEOUT_MS, started = n1\<rparr>"
  have rec1: "map_of (map_tok ?s1) k = Some r"
    using rec by (simp add: scheduleExpiry_live(1)[OF live])
  have lt: "live_timer k ?s1 = Some ?t"
    by (rule scheduleExpiry_live_timer[OF live])
  have n1: "next_id ?s1 = Suc (next_id s0)"
    by (rule scheduleExpiry_live(4)[OF live])
  from max_segments_fuel[OF fuel] life
  have enough: "expiresAt r - started ?t \<le> int (length lates) * MAX_TIMEOUT_MS"
    by (simp add: e)
  from segments_reclaim[OF rec1 lt _ _ _ enough] live
  obtain s' where s': "run_segments k lates ?s1 = Some s'"
    "map_of (map_tok s') k = None" "map_of (timers s') k = None"
    "int (next_id s') * MAX_TIMEOUT_MS
      < int (next_id ?s1) * MAX_TIMEOUT_MS + (expiresAt r - started ?t)"
    by (auto simp: e)
  from s'(4) life have "(int (next_id s') - int (next_id s0) - 1) * MAX_TIMEOUT_MS < life"
    unfolding n1 by (simp add: algebra_simps e)
  from max_segments_count[of "int (next_id s') - int (next_id s0)" life] this
  have "next_id s' \<le> next_id s0 + max_segments life" by simp
  with s'(1,2,3) show ?thesis by blast
qed

lemma max_segments_30_days: "max_segments (2592000 * 1000) = 2"
  by (simp add: max_segments_def MAX_TIMEOUT_MS_def)

lemma example_long_segments:
  "run_segments ''longkey'' [(0, 0), (5, 0)] example_long =
     Some \<lparr>map_tok = [], timers = [],
           options = \<lparr>maxSize = 9007199254740991, defaultTtl = 3600, debug = False\<rparr>,
           pending = [], next_id = 2\<rparr>"
  "run_segments ''longkey'' [(0, 0)] example_long = None"
  by (simp_all add: example_long_eq live_timer_def fire_def expiry_callback_def
      scheduleExpiry_def setTimeout_def clearTimeout_def MAX_TIMEOUT_MS_def Let_def)

section \<open>Constructor options\<close>

text \<open>
  Claim C10. The constructor merges its options with \<open>||\<close>, not with a presence
  check. An option that is given and not zero is kept; an option that is left out or is
  zero gets the default. So a store built with \<open>maxSize\<close> 0 has the cap
  \<open>Number.MAX_SAFE_INTEGER\<close> and takes an insert instead of rejecting it (the first
  insert into a new store is rejected only for a negative \<open>maxSize\<close>), and a store
  built with \<open>defaultTtl\<close> 0 has the default lifetime 3600 seconds; an insert without a
  lifetime uses the merged default, and its record stays unless that default is negative.
  \<open>debug\<close> is on only when it is given as \<open>true\<close>.
\<close>

theorem constructor_falsy_coalescing:
  "maxSize (options (new_MemoryTokenStore (opts\<lparr>maxSize_opt := Some n\<rparr>)))
       = (if n = 0 then MAX_SAFE_INTEGER else n)
   \<and> maxSize (options (new_MemoryTokenStore (opts\<lparr>maxSize_opt := None\<rparr>))) = MAX_SAFE_INTEGER
   \<and> MAX_SAFE_INTEGER = 2 ^ 53 - 1
   \<and> fst (set_token k v ttl now now' (new_MemoryTokenStore (opts\<lparr>maxSize_opt := Some n\<rparr>)))
       = (if n < 0 then Inl (SizeLimitExceeded n) else Inr ())
   \<and> defaultTtl (options (new_MemoryTokenStore (opts\<lparr>defaultTtl_opt := Some d\<rparr>)))
       = (if d = 0 then 3600 else d)
   \<and> defaultTtl (options (new_MemoryTokenStore (opts\<lparr>defaultTtl_opt := None\<rparr>))) = 3600
   \<and> map_of (map_tok (snd (set_token k v None now now
           (new_MemoryTokenStore (opts\<lparr>maxSize_opt := None, defaultTtl_opt := Some d\<rparr>))))) k
       = (if 0 \<le> d
          then Some \<lparr>token = v, expiresAt = now + (if d = 0 then 3600 else d) * 1000,
                      createdAt = now\<rparr>
          else None)
   \<and> debug (options (new_MemoryTokenStore opts)) = (debug_opt opts = Some True)"
proof -
  let ?new = "\<lambda>d. new_MemoryTokenStore (opts\<lparr>maxSize_opt := None, defaultTtl_opt := Some d\<rparr>)"
  have size: "maxSize (options (new_MemoryTokenStore (opts\<lparr>maxSize_opt := Some n\<rparr>)))
       = (if n = 0 then MAX_SAFE_INTEGER else n)"
    "maxSize (options (new_MemoryTokenStore (opts\<lparr>maxSize_opt := None\<rparr>))) = MAX_SAFE_INTEGER"
    "MAX_SAFE_INTEGER = 2 ^ 53 - 1"
    by (simp_all add: new_MemoryTokenStore_def or_number_def MAX_SAFE_INTEGER_def)
  have first: "fst (set_token k v ttl now now' (new_MemoryTokenStore (opts\<lparr>maxSize_opt := Some n\<rparr>)))
       = (if n < 0 then Inl (SizeLimitExceeded n) else Inr ())"
    by (simp add: new_MemoryTokenStore_def or_number_def MAX_SAFE_INTEGER_def set_token_def
        Let_def)
  have ttl: "defaultTtl (options (new_MemoryTokenStore (opts\<lparr>defaultTtl_opt := Some d\<rparr>)))
       = (if d = 0 then 3600 else d)"
    "defaultTtl (options (new_MemoryTokenStore (opts\<lparr>defaultTtl_opt := None\<rparr>))) = 3600"
    by (simp_all add: new_MemoryTokenStore_def or_number_def)
  have dbg: "debug (options (new_MemoryTokenStore opts)) = (debug_opt opts = Some True)"
    by (simp add: new_MemoryTokenStore_def or_bool_def split: option.splits)
  have eq: "snd (set_token k v None now now (?new d)) =
      scheduleExpiry k (now + (if d = 0 then 3600 else d) * 1000) now
        ((?new d)\<lparr>map_tok := [(k, \<lparr>token = v,
            expiresAt = now + (if d = 0 then 3600 else d) * 1000, createdAt = now\<rparr>)]\<rparr>)"
    by (simp add: new_MemoryTokenStore_def or_number_def MAX_SAFE_INTEGER_def set_token_def
        Let_def)
  have ins: "map_of (map_tok (snd (set_token k v None now now (?new d)))) k
       = (if 0 \<le> d
          then Some \<lparr>token = v, expiresAt = now + (if d = 0 then 3600 else d) * 1000,
                      createdAt = now\<rparr>
          else None)"
  proof (cases "0 \<le> d")
    case True
    then have "now < now + (if d = 0 then 3600 else d) * 1000" by simp
    from scheduleExpiry_live(1)[OF this] True show ?thesis
      unfolding eq by simp
  next
    case False
    then have "now + (if d = 0 then 3600 else d) * 1000 \<le> now" by simp
    from scheduleExpiry_expired(1)[OF this] False show ?thesis
      unfolding eq by simp
  qed
  from size first ttl dbg ins show ?thesis by simp
qed

theorem constructor_falsy_coalescing_witness:
  "maxSize (options (new_MemoryTokenStore (default_options\<lparr>maxSize_opt := Some 0\<rparr>)))
       = 9007199254740991
   \<and> maxSize (options (new_MemoryTokenStore (default_options\<lparr>maxSize_opt := Some 2\<rparr>))) = 2
   \<and> fst (set_token ''key1'' ''token1'' (Some 60) 1000 1000
           (new_MemoryTokenStore (default_options\<lparr>maxSize_opt := Some 0\<rparr>))) = Inr ()
   \<and> defaultTtl (options (new_MemoryTokenStore (default_options\<lparr>defaultTtl_opt := Some 0\<rparr>)))
       = 3600
   \<and> defaultTtl (options (new_MemoryTokenStore (default_options\<lparr>defaultTtl_opt := Some 2\<rparr>)))
       = 2
   \<and> map_of (map_tok (snd (set_token ''mykey'' ''token123'' None 1000 1000
           (new_MemoryTokenStore (default_options\<lparr>maxSize_opt := None,
              defaultTtl_opt := Some 2\<rparr>))))) ''mykey''
       = Some \<lparr>token = ''token123'', expiresAt = 3000, createdAt = 1000\<rparr>
   \<and> map_of (map_tok (snd (set_token ''mykey'' ''token123'' None 1000 1000
           (new_MemoryTokenStore (default_options\<lparr>maxSize_opt := None,
              defaultTtl_opt := Some 0\<rparr>))))) ''mykey''
       = Some \<lparr>token = ''token123'', expiresAt = 3601000, createdAt = 1000\<rparr>"
  using constructor_falsy_coalescing[where opts = default_options and n = 0 and d = 0
      and k = "''key1''" and v = "''token1''" and ttl = "Some 60" and now = 1000
      and now' = 1000]
    constructor_falsy_coalescing[where opts = default_options and n = 2 and d = 2
      and k = "''mykey''" and v = "''token123''" and ttl = "Some 60" and now = 1000
      and now' = 1000]
    constructor_falsy_coalescing[where opts = default_options and n = 2 and d = 0
      and k = "''mykey''" and v = "''token123''" and ttl = "Some 60" and now = 1000
      and now' = 1000]
  by (simp add: MAX_SAFE_INTEGER_def)

section \<open>The capacity error\<close>

text \<open>
  Claim C5. \<open>set\<close> raises the capacity error exactly when the key is not in the record
  map and the map's entry count has reached \<open>maxSize\<close>; it returns normally in every
  other case, so overwriting a key that is present never raises; and when the error is
  raised the state (both maps with it) is as it was.
\<close>

theorem set_capacity_error:
  "(fst (set_token k v ttl now now' s) = Inl (SizeLimitExceeded (maxSize (options s))))
     = (map_of (map_tok s) k = None \<and> maxSize (options s) \<le> int (length (map_tok s)))
   \<and> (fst (set_token k v ttl now now' s) = Inr ())
     = (\<not> (map_of (map_tok s) k = None \<and> maxSize (options s) \<le> int (length (map_tok s))))
   \<and> (map_of (map_tok s) k \<noteq> None \<longrightarrow> fst (set_token k v ttl now now' s) = Inr ())
   \<and> (fst (set_token k v ttl now now' s) \<noteq> Inr () \<longrightarrow>
        snd (set_token k v ttl now now' s) = s)"
  by (simp add: set_token_def Let_def)

theorem set_capacity_error_witness:
  "fst (set_token ''key3'' ''token3'' (Some 60) 2000 2000 example_full)
     = Inl (SizeLimitExceeded 2)
   \<and> snd (set_token ''key3'' ''token3'' (Some 60) 2000 2000 example_full) = example_full
   \<and> map_of (map_tok example_full) ''key1'' \<noteq> None
   \<and> fst (set_token ''key1'' ''token1b'' (Some 60) 2000 2000 example_full) = Inr ()"
proof -
  have full: "map_of (map_tok example_full) ''key3'' = None"
    "maxSize (options example_full) = 2" "length (map_tok example_full) = 2"
    "map_of (map_tok example_full) ''key1'' \<noteq> None"
    by (simp_all add: example_full_eq)
  from set_capacity_error[of "''key3''" "''token3''" "Some 60" 2000 2000 example_full]
    set_capacity_error[of "''key1''" "''token1b''" "Some 60" 2000 2000 example_full] full
  show ?thesis by simp
qed

section \<open>Reading a token\<close>

text \<open>
  Claim C4. \<open>get\<close> returns the stored value exactly when the key has a record whose
  \<open>expiresAt\<close> is later than the clock, and \<open>null\<close> otherwise; its result type has no
  error. An insert with a lifetime \<open>t > 0\<close> that returned normally, followed by \<open>get\<close>
  while the clock has not reached the deadline, returns the inserted value.
\<close>

theorem get_returns_live_value:
  "fst (get k now s) =
     (case map_of (map_tok s) k of
        None \<Rightarrow> None
      | Some r \<Rightarrow> if now < expiresAt r then Some (token r) else None)
   \<and> (fst (set_token k v (Some t) n0 n1 s) = Inr () \<longrightarrow> 0 < t \<longrightarrow>
        n1 < n0 + t * 1000 \<longrightarrow> now < n0 + t * 1000 \<longrightarrow>
        fst (get k now (snd (set_token k v (Some t) n0 n1 s))) = Some v)"
  by (auto simp: get_def set_token_def Let_def scheduleExpiry_live update_conv'
      split: option.splits if_splits)

theorem get_returns_live_value_witness:
  "fst (set_token ''mykey'' ''token123'' (Some 60) 1000 1000
          (new_MemoryTokenStore default_options)) = Inr ()
   \<and> fst (get ''mykey'' 1000 (snd (set_token ''mykey'' ''token123'' (Some 60) 1000 1000
          (new_MemoryTokenStore default_options)))) = Some ''token123''
   \<and> fst (get ''mykey'' 61000 example_store) = None
   \<and> fst (get ''other'' 1000 example_store) = None"
proof -
  have ok: "fst (set_token ''mykey'' ''token123'' (Some 60) 1000 1000
          (new_MemoryTokenStore default_options)) = Inr ()"
    by (simp add: set_token_def new_MemoryTokenStore_def default_options_def or_number_def
        MAX_SAFE_INTEGER_def Let_def)
  from get_returns_live_value[where k = "''mykey''" and now = 1000 and v = "''token123''"
      and t = 60 and ?n0.0 = 1000 and ?n1.0 = 1000
      and s = "new_MemoryTokenStore default_options"] ok
  have "fst (get ''mykey'' 1000 (snd (set_token ''mykey'' ''token123'' (Some 60) 1000 1000
          (new_MemoryTokenStore default_options)))) = Some ''token123''"
    by simp
  moreover have "fst (get ''mykey'' 61000 example_store) = None"
    "fst (get ''other'' 1000 example_store) = None"
    by (simp_all add: get_returns_live_value example_store_eq)
  ultimately show ?thesis using ok by simp
qed

section \<open>The remaining lifetime\<close>

text \<open>
  Claim C6. For a key whose record has \<open>expiresAt - now > 0\<close>, \<open>getTtl\<close> returns the
  ceiling of \<open>(expiresAt - now) / 1000\<close>, which is not negative, and leaves the state
  alone. For an absent key it returns \<open>null\<close>. For a record with \<open>expiresAt - now \<le> 0\<close>
  it returns \<open>null\<close> and destroys the record and its handle.
\<close>

theorem getTtl_ceiling_seconds:
  "(map_of (map_tok s) k = Some r \<longrightarrow> 0 < expiresAt r - now \<longrightarrow>
      getTtl k now s = (Some \<lceil>real_of_int (expiresAt r - now) / 1000\<rceil>, s)
      \<and> 0 \<le> \<lceil>real_of_int (expiresAt r - now) / 1000\<rceil>)
   \<and> (map_of (map_tok s) k = None \<longrightarrow> getTtl k now s = (None, s))
   \<and> (map_of (map_tok s) k = Some r \<longrightarrow> expiresAt r - now \<le> 0 \<longrightarrow>
      fst (getTtl k now s) = None \<and> destroyed k s (snd (getTtl k now s)))"
  by (auto simp: getTtl_def Let_def delete_token_destroyed max_def intro: order_less_imp_le)

theorem getTtl_ceiling_seconds_witness:
  "getTtl ''mykey'' 1500 example_store = (Some 60, example_store)
   \<and> getTtl ''other'' 1500 example_store = (None, example_store)
   \<and> fst (getTtl ''mykey'' 61000 example_store) = None
   \<and> destroyed ''mykey'' example_store (snd (getTtl ''mykey'' 61000 example_store))"
proof -
  let ?r = "\<lparr>token = ''token123'', expiresAt = 61000, createdAt = 1000\<rparr>"
  have r: "map_of (map_tok example_store) ''mykey'' = Some ?r"
    "map_of (map_tok example_store) ''other'' = None"
    by (simp_all add: example_store_eq)
  from getTtl_ceiling_seconds[of example_store "''mykey''" ?r 1500]
    getTtl_ceiling_seconds[of example_store "''other''" ?r 1500]
    getTtl_ceiling_seconds[of example_store "''mykey''" ?r 61000] r
  show ?thesis by simp
qed

section \<open>Cleanup on read\<close>

text \<open>
  Claim C3. When the record of a key has \<open>expiresAt \<le> now\<close>, each of \<open>get\<close>,
  \<open>has\<close>, \<open>getMetadata\<close> and \<open>getTtl\<close> reports the key as absent and destroys it:
  the record and the handle leave their maps and the handle is cleared. So does
  \<open>keys\<close>, whose list leaves the key out, on a map with one entry per key (every
  JavaScript \<open>Map\<close> is one). Nothing is assumed of the timer queue: it does not matter
  whether the key's timer has fired.
\<close>

theorem reads_destroy_expired:
  "map_of (map_tok s) k = Some r \<Longrightarrow> expiresAt r \<le> now \<Longrightarrow>
     (fst (get k now s) = None \<and> destroyed k s (snd (get k now s)))
   \<and> (fst (has k now s) = False \<and> destroyed k s (snd (has k now s)))
   \<and> (fst (getMetadata k now s) = None \<and> destroyed k s (snd (getMetadata k now s)))
   \<and> (fst (getTtl k now s) = None \<and> destroyed k s (snd (getTtl k now s)))
   \<and> (distinct (map fst (map_tok s)) \<longrightarrow>
        k \<notin> set (fst (keys now s)) \<and> destroyed k s (snd (keys now s)))"
  by (simp add: get_def has_def getMetadata_def getTtl_def Let_def delete_token_destroyed
      keys_destroys_expired)

theorem reads_destroy_expired_witness:
  "map_of (map_tok example_store) ''mykey''
     = Some \<lparr>token = ''token123'', expiresAt = 61000, createdAt = 1000\<rparr>
   \<and> distinct (map fst (map_tok example_store))
   \<and> fst (get ''mykey'' 62100 example_store) = None
   \<and> fst (has ''mykey'' 62100 example_store) = False
   \<and> fst (getMetadata ''mykey'' 62100 example_store) = None
   \<and> fst (getTtl ''mykey'' 62100 example_store) = None
   \<and> ''mykey'' \<notin> set (fst (keys 62100 example_store))
   \<and> destroyed ''mykey'' example_store (snd (get ''mykey'' 62100 example_store))
   \<and> destroyed ''mykey'' example_store (snd (keys 62100 example_store))
   \<and> pending (snd (keys 62100 example_store)) = []"
proof -
  let ?r = "\<lparr>token = ''token123'', expiresAt = 61000, createdAt = 1000\<rparr>"
  have r: "map_of (map_tok example_store) ''mykey'' = Some ?r"
    and d: "distinct (map fst (map_tok example_store))"
    and e: "expiresAt ?r \<le> 62100"
    by (simp_all add: example_store_eq)
  have p: "pending (snd (keys 62100 example_store)) = []"
    by (simp add: example_store_eq keys_def delete_token_def clearTimeout_def Let_def)
  from reads_destroy_expired[OF r e] r d p show ?thesis by simp
qed

section \<open>Zero and negative lifetimes\<close>

text \<open>
  Claim C9, as the claim has it, fails on a full store: \<open>set\<close> of a new key with
  lifetime 0 raises the capacity error, as it does for any lifetime.
\<close>

theorem nonpositive_set_raises_counterexample:
  "run [Set ''key1'' ''token1'' (Some 60) 1000 1000, Set ''key2'' ''token2'' (Some 60) 1000 1000]
       (new_MemoryTokenStore (default_options\<lparr>maxSize_opt := Some 2\<rparr>)) = example_full
   \<and> map_of (map_tok example_full) ''key3'' = None
   \<and> fst (set_token ''key3'' ''v'' (Some 0) 2000 2000 example_full)
       = Inl (SizeLimitExceeded 2)
   \<and> fst (set_token ''key3'' ''v'' (Some 0) 2000 2000 example_full) \<noteq> Inr ()"
proof -
  have "run [Set ''key1'' ''token1'' (Some 60) 1000 1000,
        Set ''key2'' ''token2'' (Some 60) 1000 1000]
       (new_MemoryTokenStore (default_options\<lparr>maxSize_opt := Some 2\<rparr>)) = example_full"
    by (simp add: run_def example_full_def)
  moreover have "map_of (map_tok example_full) ''key3'' = None"
    "fst (set_token ''key3'' ''v'' (Some 0) 2000 2000 example_full)
       = Inl (SizeLimitExceeded 2)"
    by (simp_all add: example_full_eq set_token_def)
  ultimately show ?thesis by simp
qed

text \<open>
  Claim C9, amended. A record given a lifetime \<open>t \<le> 0\<close> is reclaimed at once and no
  timer is set. With a clock that does not run backwards between the two readings,
  \<open>set\<close> with \<open>t \<le> 0\<close> returns normally exactly when it passes the capacity check
  (the key is present or the store is not full); then the key is in neither map, its old
  handle is cleared and \<open>setTimeout\<close> is not called (the handle counter stands still
  and no timeout joins the queue). When it raises instead, the error is the capacity
  error and the state is as it was. In every state that a run from a new store reaches,
  the key is in neither map after \<open>set\<close> with \<open>t \<le> 0\<close>, raised or not.
  \<open>updateTtl\<close> with \<open>t \<le> 0\<close> on a present key returns \<open>true\<close> and likewise
  leaves the key out of both maps with no timer set, because \<open>scheduleExpiry\<close> destroys
  the record whenever \<open>expiresAt - now \<le> 0\<close>.
\<close>

theorem nonpositive_lifetime_reclaimed:
  "(t \<le> 0 \<longrightarrow> n0 \<le> n1 \<longrightarrow>
      (fst (set_token k v (Some t) n0 n1 s) = Inr ())
        = (\<not> (map_of (map_tok s) k = None \<and> maxSize (options s) \<le> int (length (map_tok s))))
      \<and> (fst (set_token k v (Some t) n0 n1 s) = Inr () \<longrightarrow>
           destroyed k s (snd (set_token k v (Some t) n0 n1 s))
           \<and> next_id (snd (set_token k v (Some t) n0 n1 s)) = next_id s
           \<and> set (pending (snd (set_token k v (Some t) n0 n1 s))) \<subseteq> set (pending s))
      \<and> (fst (set_token k v (Some t) n0 n1 s) \<noteq> Inr () \<longrightarrow>
           fst (set_token k v (Some t) n0 n1 s) = Inl (SizeLimitExceeded (maxSize (options s)))
           \<and> snd (set_token k v (Some t) n0 n1 s) = s))
   \<and> (t \<le> 0 \<longrightarrow> n0 \<le> n1 \<longrightarrow>
      map_of (map_tok (snd (set_token k v (Some t) n0 n1
          (run calls (new_MemoryTokenStore opts))))) k = None
      \<and> map_of (timers (snd (set_token k v (Some t) n0 n1
          (run calls (new_MemoryTokenStore opts))))) k = None)
   \<and> (t \<le> 0 \<longrightarrow> n0 \<le> n1 \<longrightarrow> map_of (map_tok s) k = Some r \<longrightarrow>
      fst (updateTtl k t n0 n1 s) = True
      \<and> destroyed k s (snd (updateTtl k t n0 n1 s))
      \<and> next_id (snd (updateTtl k t n0 n1 s)) = next_id s
      \<and> set (pending (snd (updateTtl k t n0 n1 s))) \<subseteq> set (pending s))
   \<and> (expAt - now \<le> 0 \<longrightarrow>
      destroyed k s (scheduleExpiry k expAt now s)
      \<and> next_id (scheduleExpiry k expAt now s) = next_id s)"
proof -
  have le: "n0 + t * 1000 \<le> n1" if "t \<le> 0" "n0 \<le> n1"
    using that by simp
  have sched: "destroyed k s' (scheduleExpiry k e n (s'\<lparr>map_tok := AList.update k rec (map_tok s')\<rparr>))
      \<and> next_id (scheduleExpiry k e n (s'\<lparr>map_tok := AList.update k rec (map_tok s')\<rparr>))
          = next_id s'
      \<and> set (pending (scheduleExpiry k e n (s'\<lparr>map_tok := AList.update k rec (map_tok s')\<rparr>)))
          \<subseteq> set (pending s')"
    if "e \<le> n" for e n rec s'
    using scheduleExpiry_destroys[OF that, of k "s'\<lparr>map_tok := AList.update k rec (map_tok s')\<rparr>"]
      scheduleExpiry_expired_pending_subset[OF that, of k
        "s'\<lparr>map_tok := AList.update k rec (map_tok s')\<rparr>"]
    by (simp add: destroyed_map_update scheduleExpiry_expired(4)[OF that])
  have ins: "fst (set_token k v (Some t) n0 n1 s') = Inr ()
      \<and> destroyed k s' (snd (set_token k v (Some t) n0 n1 s'))
      \<and> next_id (snd (set_token k v (Some t) n0 n1 s')) = next_id s'
      \<and> set (pending (snd (set_token k v (Some t) n0 n1 s'))) \<subseteq> set (pending s')"
    if "t \<le> 0" "n0 \<le> n1"
      "\<not> (map_of (map_tok s') k = None \<and> maxSize (options s') \<le> int (length (map_tok s')))"
    for s'
    using sched[OF le[OF that(1,2)], of s'] that(3) by (auto simp: set_token_def Let_def)
  have reach: "map_of (map_tok (snd (set_token k v (Some t) n0 n1
          (run calls (new_MemoryTokenStore opts))))) k = None
      \<and> map_of (timers (snd (set_token k v (Some t) n0 n1
          (run calls (new_MemoryTokenStore opts))))) k = None"
    if t: "t \<le> 0" "n0 \<le> n1"
  proof (cases "map_of (map_tok (run calls (new_MemoryTokenStore opts))) k = None
      \<and> maxSize (options (run calls (new_MemoryTokenStore opts)))
          \<le> int (length (map_tok (run calls (new_MemoryTokenStore opts))))")
    case True
    let ?s = "run calls (new_MemoryTokenStore opts)"
    have "invar ?s" by (rule invar_run[OF invar_new])
    then have "fst ` set (map_tok ?s) = fst ` set (timers ?s)" by (simp add: invar_def)
    with True have "map_of (timers ?s) k = None" by (simp add: map_of_eq_None_iff)
    with True show ?thesis by (simp add: set_token_def Let_def)
  next
    case False
    from ins[OF t False] show ?thesis by (simp add: destroyed_def)
  qed
  have ext: "fst (updateTtl k t n0 n1 s) = True
      \<and> destroyed k s (snd (updateTtl k t n0 n1 s))
      \<and> next_id (snd (updateTtl k t n0 n1 s)) = next_id s
      \<and> set (pending (snd (updateTtl k t n0 n1 s))) \<subseteq> set (pending s)"
    if "t \<le> 0" "n0 \<le> n1" "map_of (map_tok s) k = Some r"
    using sched[OF le[OF that(1,2)], of s] by (simp add: updateTtl_present[OF that(3)])
  have direct: "destroyed k s (scheduleExpiry k expAt now s)
      \<and> next_id (scheduleExpiry k expAt now s) = next_id s"
    if "expAt - now \<le> 0"
  proof -
    from that have "expAt \<le> now" by simp
    then show ?thesis by (simp add: scheduleExpiry_destroys scheduleExpiry_expired(4))
  qed
  have iff: "(fst (set_token k v (Some t) n0 n1 s) = Inr ())
      = (\<not> (map_of (map_tok s) k = None \<and> maxSize (options s) \<le> int (length (map_tok s))))"
    by (simp add: set_token_def Let_def)
  have err: "fst (set_token k v (Some t) n0 n1 s) = Inl (SizeLimitExceeded (maxSize (options s)))
      \<and> snd (set_token k v (Some t) n0 n1 s) = s"
    if "fst (set_token k v (Some t) n0 n1 s) \<noteq> Inr ()"
    using that by (simp add: set_token_def Let_def split: if_splits)
  have good: "destroyed k s (snd (set_token k v (Some t) n0 n1 s))
      \<and> next_id (snd (set_token k v (Some t) n0 n1 s)) = next_id s
      \<and> set (pending (snd (set_token k v (Some t) n0 n1 s))) \<subseteq> set (pending s)"
    if "t \<le> 0" "n0 \<le> n1" "fst (set_token k v (Some t) n0 n1 s) = Inr ()"
  proof -
    from that(3) iff
    have "\<not> (map_of (map_tok s) k = None \<and> maxSize (options s) \<le> int (length (map_tok s)))"
      by simp
    from ins[OF that(1,2) this] show ?thesis by simp
  qed
  have setpart: "(fst (set_token k v (Some t) n0 n1 s) = Inr ())
        = (\<not> (map_of (map_tok s) k = None \<and> maxSize (options s) \<le> int (length (map_tok s))))
      \<and> (fst (set_token k v (Some t) n0 n1 s) = Inr () \<longrightarrow>
           destroyed k s (snd (set_token k v (Some t) n0 n1 s))
           \<and> next_id (snd (set_token k v (Some t) n0 n1 s)) = next_id s
           \<and> set (pending (snd (set_token k v (Some t) n0 n1 s))) \<subseteq> set (pending s))
      \<and> (fst (set_token k v (Some t) n0 n1 s) \<noteq> Inr () \<longrightarrow>
           fst (set_token k v (Some t) n0 n1 s) = Inl (SizeLimitExceeded (maxSize (options s)))
           \<and> snd (set_token k v (Some t) n0 n1 s) = s)"
    if "t \<le> 0" "n0 \<le> n1"
    using iff good[OF that] err by blast
  from setpart reach ext direct show ?thesis by blast
qed



theorem nonpositive_lifetime_reclaimed_witness:
  "fst (set_token ''k'' ''v'' (Some 0) 1000 1000 example_store) = Inr ()
   \<and> destroyed ''k'' example_store (snd (set_token ''k'' ''v'' (Some 0) 1000 1000 example_store))
   \<and> snd (set_token ''k'' ''v'' (Some (- 5)) 1000 1001 example_store) = example_store
   \<and> fst (set_token ''key3'' ''v'' (Some 0) 2000 2000 example_full)
       = Inl (SizeLimitExceeded 2)
   \<and> snd (set_token ''key3'' ''v'' (Some 0) 2000 2000 example_full) = example_full
   \<and> map_of (map_tok (snd (set_token ''key3'' ''v'' (Some 0) 2000 2000 example_full))) ''key3''
       = None
   \<and> map_of (timers (snd (set_token ''key3'' ''v'' (Some 0) 2000 2000 example_full))) ''key3''
       = None
   \<and> fst (updateTtl ''mykey'' 0 2000 2000 example_store) = True
   \<and> destroyed ''mykey'' example_store (snd (updateTtl ''mykey'' 0 2000 2000 example_store))
   \<and> map_tok (snd (updateTtl ''mykey'' (- 1) 2000 2001 example_store)) = []
   \<and> timers (snd (updateTtl ''mykey'' (- 1) 2000 2001 example_store)) = []
   \<and> pending (snd (updateTtl ''mykey'' (- 1) 2000 2001 example_store)) = []
   \<and> destroyed ''mykey'' example_store (scheduleExpiry ''mykey'' 61000 61000 example_store)"
proof -
  let ?r = "\<lparr>token = ''token123'', expiresAt = 61000, createdAt = 1000\<rparr>"
  let ?calls = "[Set ''key1'' ''token1'' (Some 60) 1000 1000,
    Set ''key2'' ''token2'' (Some 60) 1000 1000]"
  let ?opts = "default_options\<lparr>maxSize_opt := Some 2\<rparr>"
  have cap: "\<not> (map_of (map_tok example_store) ''k'' = None
      \<and> maxSize (options example_store) \<le> int (length (map_tok example_store)))"
    and r: "map_of (map_tok example_store) ''mykey'' = Some ?r"
    by (simp_all add: example_store_eq)
  have nocap: "map_of (map_tok example_full) ''key3'' = None
      \<and> maxSize (options example_full) \<le> int (length (map_tok example_full))"
    and m: "maxSize (options example_full) = 2"
    by (simp_all add: example_full_eq)
  have full: "run ?calls (new_MemoryTokenStore ?opts) = example_full"
    by (simp add: run_def example_full_def)
  have ev: "snd (set_token ''k'' ''v'' (Some (- 5)) 1000 1001 example_store) = example_store"
    "map_tok (snd (updateTtl ''mykey'' (- 1) 2000 2001 example_store)) = []"
    "timers (snd (updateTtl ''mykey'' (- 1) 2000 2001 example_store)) = []"
    "pending (snd (updateTtl ''mykey'' (- 1) 2000 2001 example_store)) = []"
    by (simp_all add: example_store_eq set_token_def updateTtl_def scheduleExpiry_def
        clearTimeout_def Let_def)
  from nonpositive_lifetime_reclaimed[where t = 0 and ?n0.0 = 1000 and ?n1.0 = 1000
      and s = example_store and k = "''k''" and v = "''v''" and expAt = 0 and now = 0
      and r = ?r and calls = "[]" and opts = default_options, THEN conjunct1] cap
  have a: "fst (set_token ''k'' ''v'' (Some 0) 1000 1000 example_store) = Inr ()"
    "destroyed ''k'' example_store (snd (set_token ''k'' ''v'' (Some 0) 1000 1000 example_store))"
    by simp_all
  from nonpositive_lifetime_reclaimed[where t = 0 and ?n0.0 = 2000 and ?n1.0 = 2000
      and s = example_full and k = "''key3''" and v = "''v''" and expAt = 0 and now = 0
      and r = ?r and calls = "[]" and opts = default_options, THEN conjunct1] nocap
  have e: "fst (set_token ''key3'' ''v'' (Some 0) 2000 2000 example_full)
       = Inl (SizeLimitExceeded 2)"
    "snd (set_token ''key3'' ''v'' (Some 0) 2000 2000 example_full) = example_full"
    by (simp_all add: m)
  from nonpositive_lifetime_reclaimed[where t = 0 and ?n0.0 = 2000 and ?n1.0 = 2000
      and s = example_store and k = "''key3''" and v = "''v''" and expAt = 0 and now = 0
      and r = ?r and calls = ?calls and opts = ?opts, THEN conjunct2, THEN conjunct1]
  have b: "map_of (map_tok (snd (set_token ''key3'' ''v'' (Some 0) 2000 2000 example_full)))
      ''key3'' = None"
    "map_of (timers (snd (set_token ''key3'' ''v'' (Some 0) 2000 2000 example_full)))
      ''key3'' = None"
    unfolding full by simp_all
  from nonpositive_lifetime_reclaimed[where t = 0 and ?n0.0 = 2000 and ?n1.0 = 2000
      and s = example_store and k = "''mykey''" and v = "''v''" and r = ?r
      and expAt = 61000 and now = 61000 and calls = "[]" and opts = default_options,
      THEN conjunct2, THEN conjunct2] r
  have c: "fst (updateTtl ''mykey'' 0 2000 2000 example_store) = True"
    "destroyed ''mykey'' example_store (snd (updateTtl ''mykey'' 0 2000 2000 example_store))"
    "destroyed ''mykey'' example_store (scheduleExpiry ''mykey'' 61000 61000 example_store)"
    by simp_all
  from a e b c ev show ?thesis by simp
qed

section \<open>No reclamation before the deadline\<close>

text \<open>
  Claim C1. A firing timer never destroys a record whose \<open>expiresAt\<close> is later than
  the clock: whatever handle fires and whenever, a record with \<open>expiresAt\<close> beyond both
  readings of the callback is still there, unchanged. So after an insert that returned
  normally, with any lifetime (30 days, more than \<open>2^31 - 1\<close> ms, among them), and as
  long as the clock is before the deadline: \<open>get\<close> returns the value, \<open>getTtl\<close>
  returns the lifetime less the whole seconds gone by, the segment set has the delay
  \<open>min(remaining, MAX_TIMEOUT_MS)\<close>, and the value is still returned after that segment
  has fired.
\<close>

theorem timer_never_early:
  "(map_of (map_tok s) k = Some r \<longrightarrow> now2 < expiresAt r \<longrightarrow> now3 < expiresAt r \<longrightarrow>
      map_of (map_tok (fire h now2 now3 s)) k = Some r)
   \<and> (fst (set_token k v (Some t) n0 n1 s) = Inr () \<longrightarrow>
      n1 < n0 + t * 1000 \<longrightarrow> now < n0 + t * 1000 \<longrightarrow>
      now2 < n0 + t * 1000 \<longrightarrow> now3 < n0 + t * 1000 \<longrightarrow>
      fst (get k now (snd (set_token k v (Some t) n0 n1 s))) = Some v
      \<and> fst (getTtl k now (snd (set_token k v (Some t) n0 n1 s)))
          = Some (t - (now - n0) div 1000)
      \<and> map_of (timers (snd (set_token k v (Some t) n0 n1 s))) k = Some (next_id s)
      \<and> find (\<lambda>x. tid x = next_id s) (pending (snd (set_token k v (Some t) n0 n1 s)))
          = Some \<lparr>tid = next_id s, tkey = k,
                   delay = min (n0 + t * 1000 - n1) MAX_TIMEOUT_MS, started = n1\<rparr>
      \<and> fst (get k now (fire (next_id s) now2 now3 (snd (set_token k v (Some t) n0 n1 s))))
          = Some v)"
proof -
  let ?s1 = "snd (set_token k v (Some t) n0 n1 s)"
  let ?r = "\<lparr>token = v, expiresAt = n0 + t * 1000, createdAt = n0\<rparr>"
  have segment: "fst (get k now ?s1) = Some v
      \<and> fst (getTtl k now ?s1) = Some (t - (now - n0) div 1000)
      \<and> map_of (timers ?s1) k = Some (next_id s)
      \<and> find (\<lambda>x. tid x = next_id s) (pending ?s1)
          = Some \<lparr>tid = next_id s, tkey = k,
                   delay = min (n0 + t * 1000 - n1) MAX_TIMEOUT_MS, started = n1\<rparr>
      \<and> fst (get k now (fire (next_id s) now2 now3 ?s1)) = Some v"
    if ok: "fst (set_token k v (Some t) n0 n1 s) = Inr ()" and live: "n1 < n0 + t * 1000"
      and now: "now < n0 + t * 1000" and now2: "now2 < n0 + t * 1000"
      and now3: "now3 < n0 + t * 1000"
  proof -
    have rec: "map_of (map_tok ?s1) k = Some ?r"
      using set_token_live(1)[OF ok live] by (simp add: update_conv')
    have ttl: "\<lceil>real_of_int (n0 + t * 1000 - now) / 1000\<rceil> = t - (now - n0) div 1000"
      unfolding ceiling_ms div_ms_shift by simp
    have "map_of (map_tok (fire (next_id s) now2 now3 ?s1)) k = Some ?r"
      using fire_keeps_live[OF rec, of now2 now3] now2 now3 by simp
    then have after: "fst (get k now (fire (next_id s) now2 now3 ?s1)) = Some v"
      using now by (simp add: get_def)
    have g: "fst (get k now ?s1) = Some v"
      using rec now by (simp add: get_def)
    have "max 0 (n0 + t * 1000 - now) = n0 + t * 1000 - now"
      using now by simp
    then have l: "fst (getTtl k now ?s1) = Some (t - (now - n0) div 1000)"
      using rec now ttl by (simp add: getTtl_def Let_def)
    have h: "map_of (timers ?s1) k = Some (next_id s)"
      by (simp add: set_token_live(2)[OF ok live] update_conv')
    have p: "find (\<lambda>x. tid x = next_id s) (pending ?s1)
          = Some \<lparr>tid = next_id s, tkey = k,
                   delay = min (n0 + t * 1000 - n1) MAX_TIMEOUT_MS, started = n1\<rparr>"
      by (simp add: set_token_live(3)[OF ok live])
    from g l h p after show ?thesis by simp
  qed
  show ?thesis
    using fire_keeps_live[of s k r now2 now3 h] segment by blast
qed

theorem timer_never_early_witness:
  "fst (set_token ''longkey'' ''token123'' (Some 2592000) 1000 1000
          (new_MemoryTokenStore default_options)) = Inr ()
   \<and> fst (get ''longkey'' 1000 example_long) = Some ''token123''
   \<and> fst (getTtl ''longkey'' 1000 example_long) = Some 2592000
   \<and> find (\<lambda>x. tid x = 0) (pending example_long)
        = Some \<lparr>tid = 0, tkey = ''longkey'', delay = 2147483647, started = 1000\<rparr>
   \<and> fst (get ''longkey'' 1001 (fire 0 1001 1001 example_long)) = Some ''token123''
   \<and> map_of (map_tok (fire 0 2147484647 2147484647 example_long)) ''longkey''
        = Some \<lparr>token = ''token123'', expiresAt = 2592001000, createdAt = 1000\<rparr>"
proof -
  let ?s = "new_MemoryTokenStore default_options"
  let ?r = "\<lparr>token = ''token123'', expiresAt = 2592001000, createdAt = 1000\<rparr>"
  have ok: "fst (set_token ''longkey'' ''token123'' (Some 2592000) 1000 1000 ?s) = Inr ()"
    by (rule new_store_set_ok)
  have n: "next_id ?s = 0"
    by (simp add: new_MemoryTokenStore_def)
  have m: "min (1000 + 2592000 * 1000 - 1000) MAX_TIMEOUT_MS = 2147483647"
    by (simp add: MAX_TIMEOUT_MS_def)
  have r: "map_of (map_tok example_long) ''longkey'' = Some ?r"
    by (simp add: example_long_eq)
  from timer_never_early[where k = "''longkey''" and v = "''token123''" and t = 2592000
      and ?n0.0 = 1000 and ?n1.0 = 1000 and s = example_long and now = 1000
      and ?now2.0 = 2147484647 and ?now3.0 = 2147484647 and r = ?r and h = 0,
      THEN conjunct1] r
  have segment: "map_of (map_tok (fire 0 2147484647 2147484647 example_long)) ''longkey''
      = Some ?r"
    by simp
  from timer_never_early[where k = "''longkey''" and v = "''token123''" and t = 2592000
      and ?n0.0 = 1000 and ?n1.0 = 1000 and s = ?s and now = 1000 and ?now2.0 = 1001
      and ?now3.0 = 1001, THEN conjunct2] ok
    timer_never_early[where k = "''longkey''" and v = "''token123''" and t = 2592000
      and ?n0.0 = 1000 and ?n1.0 = 1000 and s = ?s and now = 1001 and ?now2.0 = 1001
      and ?now3.0 = 1001, THEN conjunct2] segment
  show ?thesis
    unfolding example_long_def[symmetric] n m by simp
qed

section \<open>Extending a lifetime\<close>

text \<open>
  Claim C7, as the claim has it, fails for a lifetime \<open>t \<le> 0\<close>: \<open>updateTtl\<close>
  returns \<open>true\<close> and the record is gone, not kept with \<open>expiresAt = now + t*1000\<close>.
\<close>

theorem updateTtl_replaces_expiresAt_counterexample:
  "map_of (map_tok example_store) ''mykey''
     = Some \<lparr>token = ''token123'', expiresAt = 61000, createdAt = 1000\<rparr>
   \<and> fst (updateTtl ''mykey'' 0 2000 2000 example_store) = True
   \<and> map_of (map_tok (snd (updateTtl ''mykey'' 0 2000 2000 example_store))) ''mykey'' = None
   \<and> map_of (map_tok (snd (updateTtl ''mykey'' 0 2000 2000 example_store))) ''mykey''
       \<noteq> Some \<lparr>token = ''token123'', expiresAt = 2000 + 0 * 1000, createdAt = 1000\<rparr>"
  by (simp add: example_store_eq updateTtl_def scheduleExpiry_def clearTimeout_def Let_def)

text \<open>
  Claim C7, amended. \<open>updateTtl\<close> on an absent key returns \<open>false\<close> and leaves the
  state as it was. On a present key it returns \<open>true\<close> and leaves every other key's
  record and handle as they were; when the new deadline \<open>now + t*1000\<close> is later than
  the reading of \<open>scheduleExpiry\<close>, the record keeps its token and \<open>createdAt\<close> and
  has the new \<open>expiresAt\<close>, and otherwise the key is destroyed. After an insert of 60
  seconds and an extension to 120 seconds, \<open>getTtl\<close> read less than 5 seconds after the
  extension lies in \<open>(115, 120]\<close>.
\<close>

theorem updateTtl_frame:
  "(map_of (map_tok s) k = None \<longrightarrow> updateTtl k t n0 n1 s = (False, s))
   \<and> (map_of (map_tok s) k = Some r \<longrightarrow>
        fst (updateTtl k t n0 n1 s) = True
        \<and> (\<forall>k'. k' \<noteq> k \<longrightarrow>
              map_of (map_tok (snd (updateTtl k t n0 n1 s))) k' = map_of (map_tok s) k'
              \<and> map_of (timers (snd (updateTtl k t n0 n1 s))) k' = map_of (timers s) k')
        \<and> (n1 < n0 + t * 1000 \<longrightarrow>
              map_of (map_tok (snd (updateTtl k t n0 n1 s))) k
                = Some \<lparr>token = token r, expiresAt = n0 + t * 1000, createdAt = createdAt r\<rparr>)
        \<and> (n0 + t * 1000 \<le> n1 \<longrightarrow> destroyed k s (snd (updateTtl k t n0 n1 s))))
   \<and> (fst (set_token k v (Some 60) a0 a1 s) = Inr () \<longrightarrow> a1 < a0 + 60 * 1000 \<longrightarrow>
        b1 < b0 + 120 * 1000 \<longrightarrow> b0 \<le> c \<longrightarrow> c < b0 + 5000 \<longrightarrow>
        fst (updateTtl k 120 b0 b1 (snd (set_token k v (Some 60) a0 a1 s))) = True
        \<and> (\<exists>ttl. fst (getTtl k c (snd (updateTtl k 120 b0 b1
                        (snd (set_token k v (Some 60) a0 a1 s))))) = Some ttl
                  \<and> 115 < ttl \<and> ttl \<le> 120))"
proof -
  have absent: "updateTtl k t n0 n1 s = (False, s)" if "map_of (map_tok s) k = None"
    using that by (simp add: updateTtl_def)
  have present: "fst (updateTtl k t n0 n1 s) = True
        \<and> (\<forall>k'. k' \<noteq> k \<longrightarrow>
              map_of (map_tok (snd (updateTtl k t n0 n1 s))) k' = map_of (map_tok s) k'
              \<and> map_of (timers (snd (updateTtl k t n0 n1 s))) k' = map_of (timers s) k')
        \<and> (n1 < n0 + t * 1000 \<longrightarrow>
              map_of (map_tok (snd (updateTtl k t n0 n1 s))) k
                = Some \<lparr>token = token r, expiresAt = n0 + t * 1000, createdAt = createdAt r\<rparr>)
        \<and> (n0 + t * 1000 \<le> n1 \<longrightarrow> destroyed k s (snd (updateTtl k t n0 n1 s)))"
    if r: "map_of (map_tok s) k = Some r"
  proof -
    let ?s0 = "s\<lparr>map_tok := AList.update k (r\<lparr>expiresAt := n0 + t * 1000\<rparr>) (map_tok s)\<rparr>"
    have eq: "updateTtl k t n0 n1 s = (True, scheduleExpiry k (n0 + t * 1000) n1 ?s0)"
      by (rule updateTtl_present[OF r])
    have others: "map_of (map_tok (scheduleExpiry k (n0 + t * 1000) n1 ?s0)) k'
          = map_of (map_tok s) k'
        \<and> map_of (timers (scheduleExpiry k (n0 + t * 1000) n1 ?s0)) k' = map_of (timers s) k'"
      if "k' \<noteq> k" for k'
      using that by (simp add: scheduleExpiry_other update_conv')
    have live: "map_of (map_tok (scheduleExpiry k (n0 + t * 1000) n1 ?s0)) k
        = Some \<lparr>token = token r, expiresAt = n0 + t * 1000, createdAt = createdAt r\<rparr>"
      if "n1 < n0 + t * 1000"
      using that by (simp add: scheduleExpiry_live update_conv')
    have dead: "destroyed k s (scheduleExpiry k (n0 + t * 1000) n1 ?s0)"
      if "n0 + t * 1000 \<le> n1"
      using scheduleExpiry_destroys[OF that, of k ?s0] by (simp add: destroyed_map_update)
    from others live dead show ?thesis
      unfolding eq by simp
  qed
  have window: "fst (updateTtl k 120 b0 b1 (snd (set_token k v (Some 60) a0 a1 s))) = True
        \<and> (\<exists>ttl. fst (getTtl k c (snd (updateTtl k 120 b0 b1
                        (snd (set_token k v (Some 60) a0 a1 s))))) = Some ttl
                  \<and> 115 < ttl \<and> ttl \<le> 120)"
    if ok: "fst (set_token k v (Some 60) a0 a1 s) = Inr ()" and a: "a1 < a0 + 60 * 1000"
      and b: "b1 < b0 + 120 * 1000" and c: "b0 \<le> c" "c < b0 + 5000"
  proof -
    let ?s1 = "snd (set_token k v (Some 60) a0 a1 s)"
    let ?r1 = "\<lparr>token = v, expiresAt = a0 + 60 * 1000, createdAt = a0\<rparr>"
    let ?s0 = "?s1\<lparr>map_tok := AList.update k (?r1\<lparr>expiresAt := b0 + 120 * 1000\<rparr>) (map_tok ?s1)\<rparr>"
    have r1: "map_of (map_tok ?s1) k = Some ?r1"
      using set_token_live(1)[OF ok a] by (simp add: update_conv')
    have eq: "updateTtl k 120 b0 b1 ?s1 = (True, scheduleExpiry k (b0 + 120 * 1000) b1 ?s0)"
      by (rule updateTtl_present[OF r1])
    have r2: "map_of (map_tok (scheduleExpiry k (b0 + 120 * 1000) b1 ?s0)) k
        = Some (?r1\<lparr>expiresAt := b0 + 120 * 1000\<rparr>)"
      using b by (simp add: scheduleExpiry_live update_conv')
    have pos: "max 0 (b0 + 120 * 1000 - c) = b0 + 120 * 1000 - c" "b0 + 120 * 1000 - c \<noteq> 0"
      using c by simp_all
    have "fst (getTtl k c (scheduleExpiry k (b0 + 120 * 1000) b1 ?s0))
        = Some \<lceil>real_of_int (b0 + 120 * 1000 - c) / 1000\<rceil>"
      unfolding getTtl_def r2 using pos by (simp add: Let_def)
    with ttl_window[OF c] show ?thesis
      unfolding eq by simp
  qed
  from absent present window show ?thesis by blast
qed

theorem updateTtl_frame_witness:
  "updateTtl ''nonexistent'' 60 2000 2000 example_store = (False, example_store)
   \<and> fst (updateTtl ''mykey'' 120 2000 2000 example_store) = True
   \<and> map_of (map_tok (snd (updateTtl ''mykey'' 120 2000 2000 example_store))) ''mykey''
       = Some \<lparr>token = ''token123'', expiresAt = 122000, createdAt = 1000\<rparr>
   \<and> destroyed ''mykey'' example_store (snd (updateTtl ''mykey'' 0 2000 2000 example_store))
   \<and> fst (getTtl ''mykey'' 3000 (snd (updateTtl ''mykey'' 120 2000 2000 example_store)))
       = Some 119
   \<and> map_of (map_tok (snd (updateTtl ''key1'' 120 2000 2000 example_full))) ''key2''
       = Some \<lparr>token = ''token2'', expiresAt = 61000, createdAt = 1000\<rparr>
   \<and> map_of (timers (snd (updateTtl ''key1'' 120 2000 2000 example_full))) ''key2'' = Some 1"
proof -
  let ?r = "\<lparr>token = ''token123'', expiresAt = 61000, createdAt = 1000\<rparr>"
  let ?new = "new_MemoryTokenStore default_options"
  have r: "map_of (map_tok example_store) ''mykey'' = Some ?r"
    "map_of (map_tok example_store) ''nonexistent'' = None"
    by (simp_all add: example_store_eq)
  have ok: "fst (set_token ''mykey'' ''token123'' (Some 60) 1000 1000 ?new) = Inr ()"
    by (rule new_store_set_ok)
  from updateTtl_frame[where s = example_store and k = "''nonexistent''" and t = 60 and
      ?n0.0 = 2000 and ?n1.0 = 2000 and r = ?r and v = "''v''" and ?a0.0 = 0 and ?a1.0 = 0
      and ?b0.0 = 0 and ?b1.0 = 0 and c = 0] r
  have absent: "updateTtl ''nonexistent'' 60 2000 2000 example_store = (False, example_store)"
    by simp
  from updateTtl_frame[where s = example_store and k = "''mykey''" and t = 120 and
      ?n0.0 = 2000 and ?n1.0 = 2000 and r = ?r and v = "''v''" and ?a0.0 = 0 and ?a1.0 = 0
      and ?b0.0 = 0 and ?b1.0 = 0 and c = 0] r
  have live: "fst (updateTtl ''mykey'' 120 2000 2000 example_store) = True"
    "map_of (map_tok (snd (updateTtl ''mykey'' 120 2000 2000 example_store))) ''mykey''
       = Some \<lparr>token = ''token123'', expiresAt = 122000, createdAt = 1000\<rparr>"
    by simp_all
  from updateTtl_frame[where s = example_store and k = "''mykey''" and t = 0 and
      ?n0.0 = 2000 and ?n1.0 = 2000 and r = ?r and v = "''v''" and ?a0.0 = 0 and ?a1.0 = 0
      and ?b0.0 = 0 and ?b1.0 = 0 and c = 0] r
  have dead: "destroyed ''mykey'' example_store
      (snd (updateTtl ''mykey'' 0 2000 2000 example_store))"
    by simp
  from updateTtl_frame[where s = ?new and k = "''mykey''" and v = "''token123''"
      and ?a0.0 = 1000 and ?a1.0 = 1000 and ?b0.0 = 2000 and ?b1.0 = 2000 and c = 3000
      and t = 0 and ?n0.0 = 0 and ?n1.0 = 0 and r = ?r, THEN conjunct2, THEN conjunct2] ok
  have "\<exists>ttl. fst (getTtl ''mykey'' 3000 (snd (updateTtl ''mykey'' 120 2000 2000
      (snd (set_token ''mykey'' ''token123'' (Some 60) 1000 1000 ?new))))) = Some ttl
      \<and> 115 < ttl \<and> ttl \<le> 120"
    by simp
  then obtain ttl where
    "fst (getTtl ''mykey'' 3000 (snd (updateTtl ''mykey'' 120 2000 2000 example_store)))
       = Some ttl" "115 < ttl" "ttl \<le> 120"
    unfolding example_store_def by blast
  moreover
  have "fst (getTtl ''mykey'' 3000 (snd (updateTtl ''mykey'' 120 2000 2000 example_store)))
       = Some 119"
    using live(2) by (simp add: getTtl_def)
  moreover
  have full: "map_of (map_tok example_full) ''key1''
      = Some \<lparr>token = ''token1'', expiresAt = 61000, createdAt = 1000\<rparr>"
    "map_of (map_tok example_full) ''key2''
      = Some \<lparr>token = ''token2'', expiresAt = 61000, createdAt = 1000\<rparr>"
    "map_of (timers example_full) ''key2'' = Some 1"
    by (simp_all add: example_full_eq)
  from updateTtl_frame[where s = example_full and k = "''key1''" and t = 120 and
      ?n0.0 = 2000 and ?n1.0 = 2000 and v = "''v''" and ?a0.0 = 0 and ?a1.0 = 0
      and ?b0.0 = 0 and ?b1.0 = 0 and c = 0
      and r = "\<lparr>token = ''token1'', expiresAt = 61000, createdAt = 1000\<rparr>",
      THEN conjunct2, THEN conjunct1] full
  have "map_of (map_tok (snd (updateTtl ''key1'' 120 2000 2000 example_full))) ''key2''
       = Some \<lparr>token = ''token2'', expiresAt = 61000, createdAt = 1000\<rparr>"
    "map_of (timers (snd (updateTtl ''key1'' 120 2000 2000 example_full))) ''key2'' = Some 1"
    by simp_all
  ultimately show ?thesis using absent live dead by simp
qed

section \<open>The two maps have the same keys\<close>

text \<open>
  Claim C8. After every run of public calls (\<open>set\<close>, \<open>get\<close>, \<open>delete\<close>,
  \<open>has\<close>, \<open>getMetadata\<close>, \<open>getTtl\<close>, \<open>updateTtl\<close>, \<open>clear\<close>,
  \<open>keys\<close>, \<open>getStats\<close>) and timer firings from a new store, the record map and
  the handle map have the same domain, the handle map has one entry per key, the pending
  timeouts are exactly the registered handles, each for its key, and no two pending
  timeouts are for the same key: a key with a record has exactly one live handle and
  there is no handle for a key without a record.
\<close>

theorem maps_have_equal_domains:
  "dom (map_of (map_tok (run calls (new_MemoryTokenStore opts))))
     = dom (map_of (timers (run calls (new_MemoryTokenStore opts))))
   \<and> distinct (map fst (timers (run calls (new_MemoryTokenStore opts))))
   \<and> (\<lambda>t. (tkey t, tid t)) ` set (pending (run calls (new_MemoryTokenStore opts)))
       = set (timers (run calls (new_MemoryTokenStore opts)))
   \<and> distinct (map tkey (pending (run calls (new_MemoryTokenStore opts))))"
proof -
  let ?s = "run calls (new_MemoryTokenStore opts)"
  have inv: "invar ?s" by (rule invar_run[OF invar_new])
  then have "fst ` set (map_tok ?s) = fst ` set (timers ?s)"
    "distinct (map fst (timers ?s))"
    "(\<lambda>t. (tkey t, tid t)) ` set (pending ?s) = set (timers ?s)"
    by (simp_all add: invar_def)
  with invar_one_timeout_per_key[OF inv] show ?thesis
    by (simp add: dom_map_of_conv_image_fst)
qed

section \<open>The segments of one insert or extension\<close>

text \<open>
  Claim C2. Every segment \<open>scheduleExpiry\<close> sets has the delay
  \<open>min(remaining, MAX_TIMEOUT_MS)\<close>. After an insert that returned normally, or an
  extension of a present key, with a clock that does not run backwards and timers that
  do not fire before their delay has run out, the chain of segments of the key ends
  within \<open>ceil(totalLifetime / MAX_TIMEOUT_MS)\<close> firings, however late each one is:
  the key is then in neither map, and \<open>setTimeout\<close> was called at most
  \<open>ceil(totalLifetime / MAX_TIMEOUT_MS)\<close> times for it, the first call included.
\<close>

theorem segment_chain_terminates:
  "(now < expAt \<longrightarrow>
      live_timer k (scheduleExpiry k expAt now s)
        = Some \<lparr>tid = next_id s, tkey = k,
                 delay = min (expAt - now) MAX_TIMEOUT_MS, started = now\<rparr>)
   \<and> (fst (set_token k v ttl n0 n1 s) = Inr () \<longrightarrow> n0 \<le> n1 \<longrightarrow>
        max_segments ((case ttl of None \<Rightarrow> defaultTtl (options s) | Some t \<Rightarrow> t) * 1000)
          \<le> length lates \<longrightarrow>
        (\<exists>s'. run_segments k lates (snd (set_token k v ttl n0 n1 s)) = Some s'
           \<and> map_of (map_tok s') k = None \<and> map_of (timers s') k = None
           \<and> next_id s' \<le> next_id s
                + max_segments ((case ttl of None \<Rightarrow> defaultTtl (options s) | Some t \<Rightarrow> t) * 1000)))
   \<and> (map_of (map_tok s) k = Some r \<longrightarrow> n0 \<le> n1 \<longrightarrow>
        max_segments (t * 1000) \<le> length lates \<longrightarrow>
        (\<exists>s'. run_segments k lates (snd (updateTtl k t n0 n1 s)) = Some s'
           \<and> map_of (map_tok s') k = None \<and> map_of (timers s') k = None
           \<and> next_id s' \<le> next_id s + max_segments (t * 1000)))"
proof -
  have ins: "\<exists>s'. run_segments k lates (snd (set_token k v ttl n0 n1 s)) = Some s'
           \<and> map_of (map_tok s') k = None \<and> map_of (timers s') k = None
           \<and> next_id s' \<le> next_id s
                + max_segments ((case ttl of None \<Rightarrow> defaultTtl (options s) | Some t \<Rightarrow> t) * 1000)"
    if ok: "fst (set_token k v ttl n0 n1 s) = Inr ()" and mono: "n0 \<le> n1"
      and fuel: "max_segments ((case ttl of None \<Rightarrow> defaultTtl (options s) | Some t \<Rightarrow> t) * 1000)
          \<le> length lates"
  proof -
    let ?life = "(case ttl of None \<Rightarrow> defaultTtl (options s) | Some t \<Rightarrow> t) * 1000"
    let ?r = "\<lparr>token = v, expiresAt = n0 + ?life, createdAt = n0\<rparr>"
    let ?s0 = "s\<lparr>map_tok := AList.update k ?r (map_tok s)\<rparr>"
    from ok have "\<not> (map_of (map_tok s) k = None \<and> maxSize (options s) \<le> int (length (map_tok s)))"
      by (auto simp: set_token_def Let_def split: if_splits)
    then have eq: "snd (set_token k v ttl n0 n1 s) = scheduleExpiry k (n0 + ?life) n1 ?s0"
      by (auto simp: set_token_def Let_def)
    have "map_of (map_tok ?s0) k = Some ?r" by (simp add: update_conv')
    from schedule_chain[OF this _ _ fuel, of "n0 + ?life" n1] mono
    show ?thesis unfolding eq by simp
  qed
  have ext: "\<exists>s'. run_segments k lates (snd (updateTtl k t n0 n1 s)) = Some s'
           \<and> map_of (map_tok s') k = None \<and> map_of (timers s') k = None
           \<and> next_id s' \<le> next_id s + max_segments (t * 1000)"
    if rec: "map_of (map_tok s) k = Some r" and mono: "n0 \<le> n1"
      and fuel: "max_segments (t * 1000) \<le> length lates"
  proof -
    let ?r = "r\<lparr>expiresAt := n0 + t * 1000\<rparr>"
    let ?s0 = "s\<lparr>map_tok := AList.update k ?r (map_tok s)\<rparr>"
    have eq: "snd (updateTtl k t n0 n1 s) = scheduleExpiry k (n0 + t * 1000) n1 ?s0"
      by (simp add: updateTtl_present[OF rec])
    have "map_of (map_tok ?s0) k = Some ?r" by (simp add: update_conv')
    from schedule_chain[OF this _ _ fuel, of "n0 + t * 1000" n1] mono
    show ?thesis unfolding eq by simp
  qed
  from scheduleExpiry_live_timer[of now expAt k s] ins ext show ?thesis by blast
qed

theorem segment_chain_terminates_witness:
  "fst (set_token ''longkey'' ''token123'' (Some 2592000) 1000 1000
          (new_MemoryTokenStore default_options)) = Inr ()
   \<and> max_segments (2592000 * 1000) = 2
   \<and> live_timer ''longkey'' example_long
       = Some \<lparr>tid = 0, tkey = ''longkey'', delay = 2147483647, started = 1000\<rparr>
   \<and> run_segments ''longkey'' [(0, 0), (5, 0)] example_long =
       Some \<lparr>map_tok = [], timers = [],
             options = \<lparr>maxSize = 9007199254740991, defaultTtl = 3600, debug = False\<rparr>,
             pending = [], next_id = 2\<rparr>
   \<and> (\<exists>s'. run_segments ''longkey'' [(0, 0), (5, 0)] example_long = Some s'
          \<and> map_of (map_tok s') ''longkey'' = None \<and> map_of (timers s') ''longkey'' = None
          \<and> next_id s' \<le> 2)
   \<and> run_segments ''longkey'' [(0, 0)] example_long = None
   \<and> live_timer ''mykey'' (scheduleExpiry ''mykey'' 61000 2000 example_store)
       = Some \<lparr>tid = 1, tkey = ''mykey'', delay = 59000, started = 2000\<rparr>
   \<and> max_segments (120 * 1000) = 1
   \<and> (\<exists>s'. run_segments ''mykey'' [(7, 0)]
            (snd (updateTtl ''mykey'' 120 2000 2000 example_store)) = Some s'
          \<and> map_of (map_tok s') ''mykey'' = None \<and> map_of (timers s') ''mykey'' = None
          \<and> next_id s' \<le> 2)"
proof -
  let ?new = "new_MemoryTokenStore default_options"
  have ok: "fst (set_token ''longkey'' ''token123'' (Some 2592000) 1000 1000 ?new) = Inr ()"
    by (rule new_store_set_ok)
  have n: "next_id ?new = 0" by (simp add: new_MemoryTokenStore_def)
  have fuel: "max_segments ((case Some 2592000 of None \<Rightarrow> defaultTtl (options ?new)
      | Some t \<Rightarrow> t) * 1000) \<le> length [(0::nat, 0::nat), (5, 0)]"
    using max_segments_30_days by simp
  from segment_chain_terminates[where k = "''longkey''" and v = "''token123''"
      and ttl = "Some 2592000" and ?n0.0 = 1000 and ?n1.0 = 1000 and s = ?new
      and lates = "[(0, 0), (5, 0)]" and now = 0 and expAt = 0 and t = 0
      and r = "\<lparr>token = [], expiresAt = 0, createdAt = 0\<rparr>",
      THEN conjunct2, THEN conjunct1, rule_format, OF ok _ fuel]
  have chain: "\<exists>s'. run_segments ''longkey'' [(0, 0), (5, 0)] example_long = Some s'
          \<and> map_of (map_tok s') ''longkey'' = None \<and> map_of (timers s') ''longkey'' = None
          \<and> next_id s' \<le> 2"
    unfolding example_long_def n using max_segments_30_days by simp
  have lt: "live_timer ''longkey'' example_long
       = Some \<lparr>tid = 0, tkey = ''longkey'', delay = 2147483647, started = 1000\<rparr>"
    by (simp add: example_long_eq live_timer_def)
  let ?r = "\<lparr>token = ''token123'', expiresAt = 61000, createdAt = 1000\<rparr>"
  have r: "map_of (map_tok example_store) ''mykey'' = Some ?r"
    and n1: "next_id example_store = 1"
    by (simp_all add: example_store_eq)
  have two_minutes: "max_segments (120 * 1000) = 1"
    by (simp add: max_segments_def MAX_TIMEOUT_MS_def)
  from segment_chain_terminates[where k = "''mykey''" and now = 2000 and expAt = 61000
      and s = example_store and v = "''v''" and ttl = None and ?n0.0 = 0 and ?n1.0 = 0
      and lates = "[]" and t = 0 and r = ?r, THEN conjunct1]
  have seg: "live_timer ''mykey'' (scheduleExpiry ''mykey'' 61000 2000 example_store)
       = Some \<lparr>tid = 1, tkey = ''mykey'', delay = 59000, started = 2000\<rparr>"
    by (simp add: n1 MAX_TIMEOUT_MS_def)
  from segment_chain_terminates[where k = "''mykey''" and now = 0 and expAt = 0
      and s = example_store and v = "''v''" and ttl = None and ?n0.0 = 2000 and ?n1.0 = 2000
      and lates = "[(7, 0)]" and t = 120 and r = ?r, THEN conjunct2, THEN conjunct2] r
  have ext: "\<exists>s'. run_segments ''mykey'' [(7, 0)]
            (snd (updateTtl ''mykey'' 120 2000 2000 example_store)) = Some s'
          \<and> map_of (map_tok s') ''mykey'' = None \<and> map_of (timers s') ''mykey'' = None
          \<and> next_id s' \<le> 2"
    using two_minutes by (simp add: n1 numeral_2_eq_2 del: run_segments.simps)
  from ok max_segments_30_days lt example_long_segments chain seg two_minutes ext
  show ?thesis by (simp del: run_segments.simps)
qed

end
